theory Spec2Isabelle
  imports Main
begin

section \<open>Errors\<close>

text \<open>
  The driver raises three kinds of exception of its own: a plain \<^verbatim>\<open>Error\<close> (malformed
  identifier), a \<^verbatim>\<open>TRPCError\<close> with a code and a message, and the \<^verbatim>\<open>TypeError\<close> of reading a
  property of an absent session (\<^verbatim>\<open>ctx.session!.userId\<close> with \<^verbatim>\<open>ctx.session\<close> null: the
  non-null assertion is erased by the compiler). The HTTP client raises its own
  exception for a failed request, with a status and a message; it knows nothing of
  \<^verbatim>\<open>TRPCError\<close>, so its failures are a type of their own.
\<close>

datatype trpc_code = FORBIDDEN | CONFLICT | NOT_FOUND | INTERNAL_SERVER_ERROR

datatype http_failure = HttpFailure nat string

datatype error =
    Error string
  | TRPCError trpc_code string
  | TypeError string
  | RequestError http_failure

section \<open>Repository identifiers\<close>

text \<open>
  \<^verbatim>\<open>identifier.split('/')\<close>: the string is cut at every separator; the empty string gives
  one empty segment, and a trailing separator gives a trailing empty segment.
\<close>

fun split_on :: "char \<Rightarrow> string \<Rightarrow> string list" where
  "split_on c [] = [[]]"
| "split_on c (x # xs) =
     (if x = c then [] # split_on c xs
      else (case split_on c xs of
              [] \<Rightarrow> [[x]]
            | s # ss \<Rightarrow> (x # s) # ss))"

text \<open>Array destructuring \<^verbatim>\<open>const [owner, repo] = ...\<close>: a missing element is undefined.\<close>

fun nth_opt :: "'a list \<Rightarrow> nat \<Rightarrow> 'a option" where
  "nth_opt [] n = None"
| "nth_opt (x # xs) 0 = Some x"
| "nth_opt (x # xs) (Suc n) = nth_opt xs n"

text \<open>\<^verbatim>\<open>!s\<close> for a string or undefined: true for undefined and for the empty string.\<close>

fun falsy :: "string option \<Rightarrow> bool" where
  "falsy None = True"
| "falsy (Some s) = (s = [])"

definition InvalidIdentifier :: error where
  "InvalidIdentifier = Error ''Invalid repository format. Use: username/repository''"

definition parseRepoIdentifier :: "string \<Rightarrow> error + (string \<times> string)" where
  "parseRepoIdentifier identifier =
     (let parts = split_on CHR ''/'' identifier;
          owner = nth_opt parts 0;
          repo = nth_opt parts 1
      in if falsy owner \<or> falsy repo then Inl InvalidIdentifier
         else (case (owner, repo) of
                 (Some ow, Some re) \<Rightarrow> Inr (ow, re)
               | _ \<Rightarrow> Inl InvalidIdentifier))"

text \<open>
  The data model's reading of a well-formed identifier, in the specification's words:
  both segments non-empty, split on the first separator (so the owner segment holds no
  separator and the name segment is everything after it).
\<close>

definition spec_well_formed :: "string \<Rightarrow> string \<Rightarrow> bool" where
  "spec_well_formed ow nm \<longleftrightarrow> ow \<noteq> [] \<and> nm \<noteq> [] \<and> CHR ''/'' \<notin> set ow"

section \<open>Provider data\<close>

text \<open>The parts of the provider's REST responses that the driver reads.\<close>

record owner_data =
  login :: string
  owner_type :: string

record repo_response =
  r_id :: nat
  r_name :: string
  r_description :: "string option"
  html_url :: string
  is_private :: bool
  r_owner :: owner_data

record user_response =
  u_id :: nat
  u_login :: string

record membership =
  m_role :: string
  m_state :: string

record RepoData =
  repo_id :: nat
  name :: string
  description :: "string option"
  url :: string
  isPrivate :: bool
  owner :: owner_data

record current_user =
  user_id :: string
  username :: string

text \<open>
  The provider, as the driver sees it in one verification: what each REST call answers,
  a response or a raised request error. Every call the driver makes is recorded in a log.
\<close>

record github =
  users_getAuthenticated :: "http_failure + user_response"
  repos_get :: "string \<Rightarrow> string \<Rightarrow> http_failure + repo_response"
  repos_getCollaboratorPermissionLevel ::
    "string \<Rightarrow> string \<Rightarrow> string \<Rightarrow> http_failure + string"
  orgs_getMembershipForUser :: "string \<Rightarrow> string \<Rightarrow> http_failure + membership"

datatype api_call =
    GetAuthenticated
  | ReposGet string string
  | GetCollaboratorPermissionLevel string string string
  | GetMembershipForUser string string

section \<open>Database rows, session, and the mutable world\<close>

record project =
  project_id :: string
  ownerId :: "string option"
  updatedAt :: nat

text \<open>A row of the claim table; the details column is a JSON object of strings.\<close>

record projectClaim =
  pc_projectId :: string
  pc_userId :: string
  success :: bool
  verificationMethod :: string
  verificationDetails :: "(string \<times> string) list"
  errorReason :: "string option"

record session =
  userId :: string

record Context =
  ctx_session :: "session option"

record world =
  projects :: "project list"
  projectClaims :: "projectClaim list"
  cache :: "string \<rightharpoonup> (RepoData \<times> nat)"
  calls :: "api_call list"

record verify_result =
  res_success :: bool
  res_project :: project
  res_ownershipType :: string
  res_verifiedAs :: string

section \<open>Identity and repository resolution\<close>

fun digit_char :: "nat \<Rightarrow> char" where
  "digit_char n = char_of (48 + n)"

fun toString_nat :: "nat \<Rightarrow> string" where
  "toString_nat n =
     (if n < 10 then [digit_char n]
      else toString_nat (n div 10) @ [digit_char (n mod 10)])"

definition getCurrentUser :: "github \<Rightarrow> world \<Rightarrow> (error + current_user) \<times> world" where
  "getCurrentUser gh w =
     (let w1 = w\<lparr>calls := calls w @ [GetAuthenticated]\<rparr>
      in case users_getAuthenticated gh of
           Inl f \<Rightarrow> (Inl (RequestError f), w1)
         | Inr d \<Rightarrow> (Inr \<lparr>user_id = toString_nat (u_id d), username = u_login d\<rparr>, w1))"

text \<open>
  Modelled from the spec: the cache helpers \<^verbatim>\<open>createCacheKey\<close> and \<^verbatim>\<open>getCached\<close> of
  \<^verbatim>\<open>utils/cache\<close>, which the driver imports. The key is the namespace, the entity kind and
  the identifier serialised into one string. A hit within the time-to-live returns the
  stored value without running the producer; a miss or an expired entry runs the
  producer, stores its result under the key with the current time and returns it; a
  failing producer propagates and nothing is stored.
\<close>

definition createCacheKey :: "string \<Rightarrow> string \<Rightarrow> string \<Rightarrow> string" where
  "createCacheKey ns kind ident = ns @ '':'' @ kind @ '':'' @ ident"

definition getCached ::
  "string \<Rightarrow> (world \<Rightarrow> (error + RepoData) \<times> world) \<Rightarrow> nat \<Rightarrow> nat \<Rightarrow> world
     \<Rightarrow> (error + RepoData) \<times> world" where
  "getCached key producer ttl now w =
     (let fetch = (case producer w of
                     (Inl e, w1) \<Rightarrow> (Inl e, w1)
                   | (Inr v, w1) \<Rightarrow> (Inr v, w1\<lparr>cache := (cache w1)(key \<mapsto> (v, now))\<rparr>))
      in case cache w key of
           None \<Rightarrow> fetch
         | Some (v, t) \<Rightarrow> if now \<le> t + ttl then (Inr v, w) else fetch)"

definition getRepo :: "github \<Rightarrow> nat \<Rightarrow> string \<Rightarrow> world \<Rightarrow> (error + RepoData) \<times> world" where
  "getRepo gh now identifier w =
     (case parseRepoIdentifier identifier of
        Inl e \<Rightarrow> (Inl e, w)
      | Inr (ow, re) \<Rightarrow>
          getCached (createCacheKey ''github'' ''repo'' identifier)
            (\<lambda>w0. let w1 = w0\<lparr>calls := calls w0 @ [ReposGet ow re]\<rparr>
                  in case repos_get gh ow re of
                       Inl f \<Rightarrow> (Inl (RequestError f), w1)
                     | Inr d \<Rightarrow>
                         (Inr \<lparr>repo_id = r_id d, name = r_name d,
                               description = r_description d, url = html_url d,
                               isPrivate = is_private d, owner = r_owner d\<rparr>, w1))
            (5 * 60) now w)"

section \<open>The ownership checks\<close>

text \<open>
  Lines 203 to 267 of \<^verbatim>\<open>verifyOwnership\<close>: the direct-owner test, then for an organisation
  the collaborator-permission lookup and the organisation-membership lookup, each in
  its own try block. The result is the pair of \<^verbatim>\<open>isOwner\<close> and \<^verbatim>\<open>ownershipType\<close>.
\<close>

definition membershipLookup ::
  "github \<Rightarrow> string \<Rightarrow> string \<Rightarrow> world \<Rightarrow> (http_failure + membership) \<times> world" where
  "membershipLookup gh org user w =
     (orgs_getMembershipForUser gh org user,
      w\<lparr>calls := calls w @ [GetMembershipForUser org user]\<rparr>)"

definition permissionLookup ::
  "github \<Rightarrow> string \<Rightarrow> string \<Rightarrow> string \<Rightarrow> world \<Rightarrow> (http_failure + string) \<times> world" where
  "permissionLookup gh ow re user w =
     (repos_getCollaboratorPermissionLevel gh ow re user,
      w\<lparr>calls := calls w @ [GetCollaboratorPermissionLevel ow re user]\<rparr>)"

definition checkOwnership ::
  "github \<Rightarrow> string \<Rightarrow> string \<Rightarrow> current_user \<Rightarrow> RepoData \<Rightarrow> world
     \<Rightarrow> (bool \<times> string) \<times> world" where
  "checkOwnership gh ow re currentUser repoData w =
     (if login (owner repoData) = username currentUser
      then ((True, ''repository owner''), w)
      else if owner_type (owner repoData) = ''Organization'' then
        (case permissionLookup gh ow re (username currentUser) w of
           (Inr permission, w1) \<Rightarrow>
             if permission = ''admin'' then
               (case membershipLookup gh (login (owner repoData)) (username currentUser) w1 of
                  (Inr m, w2) \<Rightarrow>
                    if m_role m = ''admin'' \<and> m_state m = ''active''
                    then ((True, ''organization owner''), w2)
                    else ((False, []), w2)
                | (Inl orgError, w2) \<Rightarrow> ((True, ''repository admin''), w2))
             else ((False, []), w1)
         | (Inl err, w1) \<Rightarrow>
             (case membershipLookup gh (login (owner repoData)) (username currentUser) w1 of
                (Inr m, w2) \<Rightarrow>
                  if m_role m = ''admin'' \<and> m_state m = ''active''
                  then ((True, ''organization owner''), w2)
                  else ((False, []), w2)
              | (Inl orgError, w2) \<Rightarrow> ((False, []), w2)))
      else ((False, []), w))"

section \<open>Denial and ownership assignment\<close>

text \<open>
  The conditional update: every row with the given id and a null owner gets the new
  owner and time stamp; the statement returns the rows it changed.
\<close>

definition claimable :: "string \<Rightarrow> project \<Rightarrow> bool" where
  "claimable projectId p \<longleftrightarrow> project_id p = projectId \<and> ownerId p = None"

definition update_owner ::
  "string \<Rightarrow> string option \<Rightarrow> nat \<Rightarrow> project list \<Rightarrow> project list \<times> project list" where
  "update_owner projectId uid now ps =
     (map (\<lambda>p. if claimable projectId p then p\<lparr>ownerId := uid, updatedAt := now\<rparr> else p) ps,
      map (\<lambda>p. p\<lparr>ownerId := uid, updatedAt := now\<rparr>) (filter (claimable projectId) ps))"

definition forbidden_message :: "string \<Rightarrow> string \<Rightarrow> string" where
  "forbidden_message user repoOwner =
     ''You don't have the required permissions to claim this project. You must be either the repository owner or an organization owner. Current user: ''
     @ user @ '', Repository owner: '' @ repoOwner"

definition denied_claim :: "string \<Rightarrow> string \<Rightarrow> current_user \<Rightarrow> RepoData \<Rightarrow> projectClaim" where
  "denied_claim projectId uid currentUser repoData =
     \<lparr>pc_projectId = projectId, pc_userId = uid, success = False,
      verificationMethod = ''github_api'',
      verificationDetails =
        [(''verifiedAs'', username currentUser),
         (''repoOwner'', login (owner repoData)),
         (''repoOwnerType'', owner_type (owner repoData)),
         (''reason'', ''insufficient_permissions'')],
      errorReason = Some (''User '' @ username currentUser
        @ '' does not have required permissions. Repository owner: ''
        @ login (owner repoData))\<rparr>"

definition approved_claim ::
  "string \<Rightarrow> string \<Rightarrow> string \<Rightarrow> string \<Rightarrow> current_user \<Rightarrow> RepoData \<Rightarrow> string
     \<Rightarrow> projectClaim" where
  "approved_claim projectId uid ow re currentUser repoData ownershipType =
     \<lparr>pc_projectId = projectId, pc_userId = uid, success = True,
      verificationMethod = ownershipType,
      verificationDetails =
        [(''verifiedAs'', username currentUser),
         (''repoOwner'', login (owner repoData)),
         (''repoOwnerType'', owner_type (owner repoData)),
         (''ownershipType'', ownershipType),
         (''repositoryUrl'', ''https://github.com/'' @ ow @ ''/'' @ re)],
      errorReason = None\<rparr>"

text \<open>
  Lines 269 to 289: the denial. The row is built before it is inserted, and building
  it reads \<^verbatim>\<open>ctx.session!.userId\<close>, which raises when there is no session.
\<close>

definition deny ::
  "Context \<Rightarrow> string \<Rightarrow> current_user \<Rightarrow> RepoData \<Rightarrow> world
     \<Rightarrow> (error + verify_result) \<times> world" where
  "deny ctx projectId currentUser repoData w =
     (case ctx_session ctx of
        None \<Rightarrow> (Inl (TypeError ''userId''), w)
      | Some s \<Rightarrow>
          (Inl (TRPCError FORBIDDEN
                  (forbidden_message (username currentUser) (login (owner repoData)))),
           w\<lparr>projectClaims := projectClaims w
                @ [denied_claim projectId (userId s) currentUser repoData]\<rparr>))"

text \<open>
  Lines 293 to 336: the conditional update with \<^verbatim>\<open>ctx.session?.userId ?? null\<close> as the new
  owner, the conflict when it returns no row, then the success row and the result.
\<close>

definition assign ::
  "nat \<Rightarrow> Context \<Rightarrow> string \<Rightarrow> string \<Rightarrow> string \<Rightarrow> current_user \<Rightarrow> RepoData \<Rightarrow> string
     \<Rightarrow> world \<Rightarrow> (error + verify_result) \<times> world" where
  "assign now ctx projectId ow re currentUser repoData ownershipType w =
     (let uid = (case ctx_session ctx of None \<Rightarrow> None | Some s \<Rightarrow> Some (userId s));
          (ps, updatedProject) = update_owner projectId uid now (projects w);
          w1 = w\<lparr>projects := ps\<rparr>
      in case updatedProject of
           [] \<Rightarrow>
             (Inl (TRPCError CONFLICT ''Project has already been claimed by another user''), w1)
         | p # _ \<Rightarrow>
             (case ctx_session ctx of
                None \<Rightarrow> (Inl (TypeError ''userId''), w1)
              | Some s \<Rightarrow>
                  (Inr \<lparr>res_success = True, res_project = p,
                        res_ownershipType = ownershipType,
                        res_verifiedAs = username currentUser\<rparr>,
                   w1\<lparr>projectClaims := projectClaims w1
                        @ [approved_claim projectId (userId s) ow re currentUser repoData
                             ownershipType]\<rparr>)))"

definition verifyOwnership ::
  "github \<Rightarrow> nat \<Rightarrow> string \<Rightarrow> Context \<Rightarrow> string \<Rightarrow> world
     \<Rightarrow> (error + verify_result) \<times> world" where
  "verifyOwnership gh now identifier ctx projectId w =
     (case parseRepoIdentifier identifier of
        Inl e \<Rightarrow> (Inl e, w)
      | Inr (ow, re) \<Rightarrow>
          (case getCurrentUser gh w of
             (Inl e, w1) \<Rightarrow> (Inl e, w1)
           | (Inr currentUser, w1) \<Rightarrow>
               (case getRepo gh now identifier w1 of
                  (Inl e, w2) \<Rightarrow> (Inl e, w2)
                | (Inr repoData, w2) \<Rightarrow>
                    (case checkOwnership gh ow re currentUser repoData w2 of
                       ((isOwner, ownershipType), w3) \<Rightarrow>
                         if \<not> isOwner then deny ctx projectId currentUser repoData w3
                         else assign now ctx projectId ow re currentUser repoData
                                ownershipType w3))))"

section \<open>The database statements of a verification, one at a time\<close>

text \<open>
  Each database statement of \<^verbatim>\<open>verifyOwnership\<close> is awaited on its own, so other requests
  may run between two of them. A task is what is left of one call: the conditional
  update still to run, a row still to insert (with the outcome that follows it), or
  the outcome. \<open>start\<close> is the call up to its first database statement; \<open>step\<close> runs the
  next statement.
\<close>

datatype task =
    DoUpdate nat Context string string string current_user RepoData string
  | DoInsert projectClaim "error + verify_result"
  | Finished "error + verify_result"

fun step :: "task \<Rightarrow> world \<Rightarrow> task \<times> world" where
  "step (DoUpdate now ctx projectId ow re currentUser repoData ownershipType) w =
     (let uid = (case ctx_session ctx of None \<Rightarrow> None | Some s \<Rightarrow> Some (userId s));
          (ps, updatedProject) = update_owner projectId uid now (projects w);
          w1 = w\<lparr>projects := ps\<rparr>
      in case updatedProject of
           [] \<Rightarrow>
             (Finished (Inl (TRPCError CONFLICT
                ''Project has already been claimed by another user'')), w1)
         | p # _ \<Rightarrow>
             (case ctx_session ctx of
                None \<Rightarrow> (Finished (Inl (TypeError ''userId'')), w1)
              | Some s \<Rightarrow>
                  (DoInsert
                     (approved_claim projectId (userId s) ow re currentUser repoData
                        ownershipType)
                     (Inr \<lparr>res_success = True, res_project = p,
                           res_ownershipType = ownershipType,
                           res_verifiedAs = username currentUser\<rparr>), w1)))"
| "step (DoInsert c r) w = (Finished r, w\<lparr>projectClaims := projectClaims w @ [c]\<rparr>)"
| "step (Finished r) w = (Finished r, w)"

definition start ::
  "github \<Rightarrow> nat \<Rightarrow> string \<Rightarrow> Context \<Rightarrow> string \<Rightarrow> world \<Rightarrow> task \<times> world" where
  "start gh now identifier ctx projectId w =
     (case parseRepoIdentifier identifier of
        Inl e \<Rightarrow> (Finished (Inl e), w)
      | Inr (ow, re) \<Rightarrow>
          (case getCurrentUser gh w of
             (Inl e, w1) \<Rightarrow> (Finished (Inl e), w1)
           | (Inr currentUser, w1) \<Rightarrow>
               (case getRepo gh now identifier w1 of
                  (Inl e, w2) \<Rightarrow> (Finished (Inl e), w2)
                | (Inr repoData, w2) \<Rightarrow>
                    (case checkOwnership gh ow re currentUser repoData w2 of
                       ((isOwner, ownershipType), w3) \<Rightarrow>
                         if \<not> isOwner then
                           (case ctx_session ctx of
                              None \<Rightarrow> (Finished (Inl (TypeError ''userId'')), w3)
                            | Some s \<Rightarrow>
                                (DoInsert
                                   (denied_claim projectId (userId s) currentUser repoData)
                                   (Inl (TRPCError FORBIDDEN
                                      (forbidden_message (username currentUser)
                                         (login (owner repoData))))), w3))
                         else (DoUpdate now ctx projectId ow re currentUser repoData
                                 ownershipType, w3)))))"

fun steps :: "nat \<Rightarrow> task \<times> world \<Rightarrow> task \<times> world" where
  "steps 0 c = c"
| "steps (Suc n) (t, w) = steps n (step t w)"

text \<open>
  Any number of calls in flight: a new call arrives and runs up to its first database
  statement, or one of the calls in flight runs its next statement.
\<close>

inductive interleave :: "world \<times> task list \<Rightarrow> world \<times> task list \<Rightarrow> bool" where
  arrive: "start gh now identifier ctx projectId w = (t, w')
             \<Longrightarrow> interleave (w, ts) (w', ts @ [t])"
| advance: "i < length ts \<Longrightarrow> step (ts ! i) w = (t', w')
             \<Longrightarrow> interleave (w, ts) (w', ts[i := t'])"

text \<open>
  What a reader of the two tables may rely on: every success row names a project that
  some row of the project table gives to the row's user.
\<close>

definition owner_assigned :: "project list \<Rightarrow> projectClaim \<Rightarrow> bool" where
  "owner_assigned ps c \<longleftrightarrow>
     (\<exists>p \<in> set ps. project_id p = pc_projectId c \<and> ownerId p = Some (pc_userId c))"

definition consistent :: "world \<Rightarrow> bool" where
  "consistent w \<longleftrightarrow> (\<forall>c \<in> set (projectClaims w). success c \<longrightarrow> owner_assigned (projects w) c)"

fun task_ok :: "world \<Rightarrow> task \<Rightarrow> bool" where
  "task_ok w (DoInsert c r) = (success c \<longrightarrow> owner_assigned (projects w) c)"
| "task_ok w t = True"

text \<open>The invariant of the calls in flight: the tables are consistent and every task is.\<close>

definition inv :: "world \<times> task list \<Rightarrow> bool" where
  "inv c \<longleftrightarrow> consistent (fst c) \<and> (\<forall>t \<in> set (snd c). task_ok (fst c) t)"

section \<open>A user's pull requests\<close>

datatype pr_state = OPEN | CLOSED | MERGED

datatype state_filter = Open | Closed | Merged | All

record pr_repository =
  nameWithOwner :: string
  repository_url :: string
  repository_isPrivate :: bool
  repository_owner_login :: string

text \<open>A node of the GraphQL answer, and the record the driver makes of it.\<close>

record pr_node =
  node_id :: string
  node_number :: nat
  node_title :: string
  node_state :: pr_state
  node_isDraft :: bool
  node_createdAt :: string
  node_updatedAt :: string
  node_closedAt :: "string option"
  node_mergedAt :: "string option"
  node_url :: string
  node_headRefName :: string
  node_baseRefName :: string
  node_repository :: pr_repository

record UserPullRequestData =
  pr_id :: string
  number :: nat
  title :: string
  state :: string
  pr_url :: string
  createdAt :: string
  pr_updatedAt :: string
  closedAt :: "string option"
  mergedAt :: "string option"
  isDraft :: bool
  headRefName :: string
  baseRefName :: string
  repository :: pr_repository

record pageInfo =
  hasNextPage :: bool
  endCursor :: "string option"

record pullRequests =
  totalCount :: nat
  pageInfo :: pageInfo
  nodes :: "pr_node list"

text \<open>
  The GraphQL endpoint: the user name, the page size \<^verbatim>\<open>first\<close> and the cursor \<^verbatim>\<open>after\<close> give
  a raised error or a response, whose \<^verbatim>\<open>user\<close> is null for an unknown user.
\<close>

type_synonym graphql =
  "string \<Rightarrow> int \<Rightarrow> string option \<Rightarrow> http_failure + pullRequests option"

record pr_options =
  opt_state :: "state_filter option"
  opt_limit :: "int option"

text \<open>\<^verbatim>\<open>pr.state.toLowerCase()\<close> on the three states the endpoint reports.\<close>

fun toLowerCase_state :: "pr_state \<Rightarrow> string" where
  "toLowerCase_state OPEN = ''open''"
| "toLowerCase_state CLOSED = ''closed''"
| "toLowerCase_state MERGED = ''merged''"

text \<open>\<^verbatim>\<open>x || undefined\<close> for a string or null: null and the empty string become undefined.\<close>

fun or_undefined :: "string option \<Rightarrow> string option" where
  "or_undefined None = None"
| "or_undefined (Some s) = (if s = [] then None else Some s)"

definition formatPR :: "pr_node \<Rightarrow> UserPullRequestData" where
  "formatPR pr =
     \<lparr>pr_id = node_id pr, number = node_number pr, title = node_title pr,
      state = toLowerCase_state (node_state pr), pr_url = node_url pr,
      createdAt = node_createdAt pr, pr_updatedAt = node_updatedAt pr,
      closedAt = or_undefined (node_closedAt pr),
      mergedAt = or_undefined (node_mergedAt pr),
      isDraft = node_isDraft pr, headRefName = node_headRefName pr,
      baseRefName = node_baseRefName pr, repository = node_repository pr\<rparr>"

definition keepPR :: "state_filter \<Rightarrow> UserPullRequestData \<Rightarrow> bool" where
  "keepPR stateFilter pr =
     (if stateFilter = All then True
      else if stateFilter = Open then state pr = ''open''
      else if stateFilter = Closed then state pr = ''closed'' \<and> falsy (mergedAt pr)
      else if stateFilter = Merged then state pr = ''merged'' \<or> \<not> falsy (mergedAt pr)
      else True)"

text \<open>\<^verbatim>\<open>xs.slice(0, end)\<close>: a negative end counts from the end of the array.\<close>

definition slice0 :: "'a list \<Rightarrow> int \<Rightarrow> 'a list" where
  "slice0 xs e = (if e < 0 then take (nat (int (length xs) + e)) xs else take (nat e) xs)"

fun error_message :: "error \<Rightarrow> string" where
  "error_message (Error m) = m"
| "error_message (TRPCError c m) = m"
| "error_message (TypeError m) = m"
| "error_message (RequestError (HttpFailure st m)) = m"

text \<open>The catch block: a \<^verbatim>\<open>TRPCError\<close> is raised again as it is, anything else is wrapped.\<close>

fun rethrow :: "error \<Rightarrow> error" where
  "rethrow (TRPCError c m) = TRPCError c m"
| "rethrow e = TRPCError INTERNAL_SERVER_ERROR (''Failed to fetch pull requests: '' @ error_message e)"

text \<open>
  The paging loop. The provider decides how many pages there are, so the loop need
  not end: it is run with fuel, one unit for each test of the loop condition, and
  \<open>None\<close> is a run that has not returned when the fuel is used up.
\<close>

fun fetchLoop ::
  "nat \<Rightarrow> graphql \<Rightarrow> string \<Rightarrow> state_filter \<Rightarrow> int \<Rightarrow> bool \<Rightarrow> string option
     \<Rightarrow> UserPullRequestData list \<Rightarrow> (error + UserPullRequestData list) option" where
  "fetchLoop 0 gq user stateFilter limit hasNext cursor allPRs = None"
| "fetchLoop (Suc fuel) gq user stateFilter limit hasNext cursor allPRs =
     (if hasNext \<and> int (length allPRs) < limit then
        (case gq user (min 100 (limit - int (length allPRs))) cursor of
           Inl f \<Rightarrow> Some (Inl (RequestError f))
         | Inr None \<Rightarrow>
             Some (Inl (TRPCError NOT_FOUND (''GitHub user '' @ [CHR 0x27] @ user @ [CHR 0x27] @ '' not found'')))
         | Inr (Some prs) \<Rightarrow>
             (let filteredPRs = filter (keepPR stateFilter) (map formatPR (nodes prs));
                  allPRs1 = allPRs @ filteredPRs;
                  hasNext1 = hasNextPage (pageInfo prs);
                  cursor1 = endCursor (pageInfo prs)
              in if \<not> hasNext1 \<or> limit \<le> int (length allPRs1) then Some (Inr allPRs1)
                 else fetchLoop fuel gq user stateFilter limit hasNext1 cursor1 allPRs1))
      else Some (Inr allPRs))"

text \<open>\<^verbatim>\<open>options?.limit || 100\<close> and \<^verbatim>\<open>options?.state || 'all'\<close>; the limit is an integer here.\<close>

definition effective_limit :: "pr_options option \<Rightarrow> int" where
  "effective_limit options =
     (case options of
        None \<Rightarrow> 100
      | Some opts \<Rightarrow> (case opt_limit opts of None \<Rightarrow> 100 | Some l \<Rightarrow> if l = 0 then 100 else l))"

definition effective_state :: "pr_options option \<Rightarrow> state_filter" where
  "effective_state options =
     (case options of
        None \<Rightarrow> All
      | Some opts \<Rightarrow> (case opt_state opts of None \<Rightarrow> All | Some s \<Rightarrow> s))"

definition getUserPullRequests ::
  "nat \<Rightarrow> graphql \<Rightarrow> string \<Rightarrow> pr_options option
     \<Rightarrow> (error + UserPullRequestData list) option" where
  "getUserPullRequests fuel gq user options =
     (let limit = effective_limit options;
          stateFilter = effective_state options
      in case fetchLoop fuel gq user stateFilter limit True None [] of
           None \<Rightarrow> None
         | Some (Inl e) \<Rightarrow> Some (Inl (rethrow e))
         | Some (Inr allPRs) \<Rightarrow> Some (Inr (slice0 allPRs limit)))"

section \<open>Concrete providers, tables and sessions\<close>

definition provider ::
  "string \<Rightarrow> string \<Rightarrow> string \<Rightarrow> http_failure + string \<Rightarrow> http_failure + membership
     \<Rightarrow> github" where
  "provider user ownerLogin ownerType perm mem =
     \<lparr>users_getAuthenticated = Inr \<lparr>u_id = 7, u_login = user\<rparr>,
      repos_get = (\<lambda>ow re. Inr \<lparr>r_id = 1, r_name = re, r_description = None,
                      html_url = ''https://github.com/'' @ ow @ ''/'' @ re, is_private = False,
                      r_owner = \<lparr>login = ownerLogin, owner_type = ownerType\<rparr>\<rparr>),
      repos_getCollaboratorPermissionLevel = (\<lambda>ow re u. perm),
      orgs_getMembershipForUser = (\<lambda>org u. mem)\<rparr>"

definition world0 :: "string option \<Rightarrow> world" where
  "world0 ownr =
     \<lparr>projects = [\<lparr>project_id = ''p1'', ownerId = ownr, updatedAt = 0\<rparr>],
      projectClaims = [], cache = Map.empty, calls = []\<rparr>"

definition ctx_of :: "string option \<Rightarrow> Context" where
  "ctx_of u = \<lparr>ctx_session = map_option (\<lambda>x. \<lparr>userId = x\<rparr>) u\<rparr>"

definition not_found :: http_failure where
  "not_found = HttpFailure 404 ''Not Found''"

definition user_named :: "string \<Rightarrow> current_user" where
  "user_named u = \<lparr>user_id = toString_nat 7, username = u\<rparr>"

definition repo_data :: "string \<Rightarrow> string \<Rightarrow> string \<Rightarrow> string \<Rightarrow> RepoData" where
  "repo_data ow re ownerLogin ownerType =
     \<lparr>repo_id = 1, name = re, description = None,
      url = ''https://github.com/'' @ ow @ ''/'' @ re, isPrivate = False,
      owner = \<lparr>login = ownerLogin, owner_type = ownerType\<rparr>\<rparr>"

definition org_admin :: membership where
  "org_admin = \<lparr>m_role = ''admin'', m_state = ''active''\<rparr>"

text \<open>
  Four providers: the caller owns the repository; the caller is an admin collaborator
  of an organisation's repository and the membership lookup fails; the caller is not a
  collaborator but an active admin of the organisation; the caller is a collaborator
  with write permission and an active admin of the organisation.
\<close>

definition gh_direct :: github where
  "gh_direct = provider ''octocat'' ''octocat'' ''User'' (Inl not_found) (Inl not_found)"

definition gh_fallback :: github where
  "gh_fallback = provider ''alice'' ''acme'' ''Organization'' (Inr ''admin'') (Inl not_found)"

definition gh_org_owner :: github where
  "gh_org_owner = provider ''alice'' ''acme'' ''Organization'' (Inl not_found) (Inr org_admin)"

definition gh_write :: github where
  "gh_write = provider ''alice'' ''acme'' ''Organization'' (Inr ''write'') (Inr org_admin)"

text \<open>The lookups among the provider calls.\<close>

fun is_lookup :: "api_call \<Rightarrow> bool" where
  "is_lookup (GetCollaboratorPermissionLevel ow re u) = True"
| "is_lookup (GetMembershipForUser org u) = True"
| "is_lookup c = False"

text \<open>Pull-request nodes and GraphQL providers.\<close>

definition node_of :: "pr_state \<Rightarrow> string option \<Rightarrow> pr_node" where
  "node_of st merged_at =
     \<lparr>node_id = ''PR_1'', node_number = 1, node_title = ''Fix the parser'',
      node_state = st, node_isDraft = False,
      node_createdAt = ''2024-01-01T00:00:00Z'', node_updatedAt = ''2024-01-02T00:00:00Z'',
      node_closedAt = merged_at, node_mergedAt = merged_at,
      node_url = ''https://github.com/acme/widgets/pull/1'',
      node_headRefName = ''fix'', node_baseRefName = ''main'',
      node_repository =
        \<lparr>nameWithOwner = ''acme/widgets'', repository_url = ''https://github.com/acme/widgets'',
         repository_isPrivate = False, repository_owner_login = ''acme''\<rparr>\<rparr>"

text \<open>
  A provider that never runs out: every page holds as many copies of the node as were
  asked for, and at least one, and reports a next page.
\<close>

definition endless :: "pr_node \<Rightarrow> graphql" where
  "endless n user first cursor =
     Inr (Some \<lparr>totalCount = 1000,
                pageInfo = \<lparr>hasNextPage = True, endCursor = Some ''cursor''\<rparr>,
                nodes = replicate (nat (max 1 first)) n\<rparr>)"

definition single_page :: "pr_node list \<Rightarrow> graphql" where
  "single_page ns user first cursor =
     Inr (Some \<lparr>totalCount = length ns,
                pageInfo = \<lparr>hasNextPage = False, endCursor = None\<rparr>,
                nodes = ns\<rparr>)"

text \<open>The progress a provider makes: a page that reports a next page adds a record.\<close>

definition progresses :: "graphql \<Rightarrow> string \<Rightarrow> state_filter \<Rightarrow> bool" where
  "progresses gq user sf \<longleftrightarrow>
     (\<forall>first cursor page. gq user first cursor = Inr (Some page) \<and> hasNextPage (pageInfo page)
        \<longrightarrow> filter (keepPR sf) (map formatPR (nodes page)) \<noteq> [])"

section \<open>Facts about splitting\<close>

lemma split_on_not_Nil: "split_on c s \<noteq> []"
  by (induction s) (auto split: list.splits)

lemma split_on_no_sep: "c \<notin> set a \<Longrightarrow> split_on c a = [a]"
  by (induction a) auto

lemma split_on_append_sep:
  "c \<notin> set a \<Longrightarrow> split_on c (a @ c # t) = a # split_on c t"
  by (induction a) auto

lemma split_on_first:
  "split_on c s = x # xs \<Longrightarrow>
     c \<notin> set x \<and> ((xs = [] \<and> s = x) \<or> (\<exists>t. s = x @ c # t \<and> xs = split_on c t))"
proof (induction s arbitrary: x xs)
  case Nil
  then show ?case by simp
next
  case (Cons y ys)
  show ?case
  proof (cases "y = c")
    case True
    with Cons.prems show ?thesis by auto
  next
    case False
    obtain z zs where z: "split_on c ys = z # zs"
      using split_on_not_Nil [of c ys] by (cases "split_on c ys") auto
    with False Cons.prems have x: "x = y # z" "xs = zs" by auto
    from Cons.IH [OF z] have ih:
      "c \<notin> set z \<and> ((zs = [] \<and> ys = z) \<or> (\<exists>t. ys = z @ c # t \<and> zs = split_on c t))" .
    with x False show ?thesis by auto
  qed
qed

lemma parseRepoIdentifier_two:
  assumes "ow \<noteq> []" "re \<noteq> []" "CHR ''/'' \<notin> set ow" "CHR ''/'' \<notin> set re"
  shows "parseRepoIdentifier (ow @ CHR ''/'' # re) = Inr (ow, re)"
  using assms by (simp add: parseRepoIdentifier_def split_on_append_sep split_on_no_sep)

lemma parseRepoIdentifier_more:
  assumes "ow \<noteq> []" "re \<noteq> []" "CHR ''/'' \<notin> set ow" "CHR ''/'' \<notin> set re"
  shows "parseRepoIdentifier (ow @ CHR ''/'' # re @ CHR ''/'' # t) = Inr (ow, re)"
  using assms by (simp add: parseRepoIdentifier_def split_on_append_sep)

lemma parseRepoIdentifier_Inr:
  assumes "parseRepoIdentifier s = Inr (ow, re)"
  shows "ow \<noteq> [] \<and> re \<noteq> [] \<and> CHR ''/'' \<notin> set ow \<and> CHR ''/'' \<notin> set re \<and>
         (s = ow @ CHR ''/'' # re \<or> (\<exists>t. s = ow @ CHR ''/'' # re @ CHR ''/'' # t))"
proof -
  obtain x xs where x: "split_on CHR ''/'' s = x # xs"
    using split_on_not_Nil [of "CHR ''/''" s] by (cases "split_on CHR ''/'' s") auto
  from assms x obtain y ys where y: "xs = y # ys"
    by (cases xs) (auto simp: parseRepoIdentifier_def)
  from assms x y have eq: "x = ow" "y = re" "ow \<noteq> []" "re \<noteq> []"
    by (auto simp: parseRepoIdentifier_def Let_def split: if_splits)
  from split_on_first [OF x] y obtain t where
    t: "CHR ''/'' \<notin> set x" "s = x @ CHR ''/'' # t" "xs = split_on CHR ''/'' t"
    by auto
  from t(3) y have "split_on CHR ''/'' t = y # ys" by simp
  from split_on_first [OF this] have
    "CHR ''/'' \<notin> set y \<and> ((ys = [] \<and> t = y) \<or> (\<exists>u. t = y @ CHR ''/'' # u \<and> ys = split_on CHR ''/'' u))" .
  with t eq show ?thesis by auto
qed

lemma parseRepoIdentifier_Inl:
  "parseRepoIdentifier s = Inl e \<Longrightarrow> e = InvalidIdentifier"
  by (auto simp: parseRepoIdentifier_def Let_def split: if_splits option.splits)

section \<open>Facts about the phases of a verification\<close>

lemma getCurrentUser_db:
  "getCurrentUser gh w = (r, w') \<Longrightarrow>
     projects w' = projects w \<and> projectClaims w' = projectClaims w \<and>
     calls w' = calls w @ [GetAuthenticated]"
  by (auto simp: getCurrentUser_def Let_def split: sum.splits)

lemma getRepo_db:
  "getRepo gh now identifier w = (r, w') \<Longrightarrow>
     projects w' = projects w \<and> projectClaims w' = projectClaims w \<and>
     (\<exists>cs. calls w' = calls w @ cs \<and> (\<forall>c \<in> set cs. \<exists>a b. c = ReposGet a b))"
  by (auto simp: getRepo_def getCached_def Let_def split: sum.splits option.splits prod.splits if_splits)

lemma checkOwnership_db:
  "checkOwnership gh ow re cu rd w = (r, w') \<Longrightarrow>
     projects w' = projects w \<and> projectClaims w' = projectClaims w"
  by (auto simp: checkOwnership_def membershipLookup_def permissionLookup_def
      split: sum.splits prod.splits if_splits)

lemma update_owner_none:
  "\<forall>p \<in> set ps. project_id p = projectId \<longrightarrow> ownerId p \<noteq> None \<Longrightarrow>
     update_owner projectId uid now ps = (ps, [])"
  by (induction ps) (auto simp: update_owner_def claimable_def)

lemma update_owner_null:
  "update_owner projectId None now ps = (ps', rows) \<Longrightarrow>
     map ownerId ps' = map ownerId ps \<and> map project_id ps' = map project_id ps"
  by (auto simp: update_owner_def claimable_def)

lemma assign_conflict:
  assumes "\<forall>p \<in> set (projects w). project_id p = projectId \<longrightarrow> ownerId p \<noteq> None"
  shows "assign now ctx projectId ow re cu rd ot w =
     (Inl (TRPCError CONFLICT ''Project has already been claimed by another user''), w)"
  using update_owner_none [OF assms] by (simp add: assign_def)

lemma assign_success:
  assumes "p \<in> set (projects w)" "claimable projectId p" "ctx_session ctx = Some s"
  shows "\<exists>row. assign now ctx projectId ow re cu rd ot w =
     (Inr \<lparr>res_success = True, res_project = row, res_ownershipType = ot,
            res_verifiedAs = username cu\<rparr>,
      w\<lparr>projects := fst (update_owner projectId (Some (userId s)) now (projects w)),
        projectClaims := projectClaims w
          @ [approved_claim projectId (userId s) ow re cu rd ot]\<rparr>) \<and>
     project_id row = projectId \<and> ownerId row = Some (userId s) \<and> updatedAt row = now"
proof -
  from assms have "filter (claimable projectId) (projects w) \<noteq> []"
    by (auto simp: filter_empty_conv)
  then obtain q qs where q: "filter (claimable projectId) (projects w) = q # qs"
    by (cases "filter (claimable projectId) (projects w)") auto
  then have "q \<in> set (filter (claimable projectId) (projects w))" by simp
  then have "claimable projectId q" by simp
  with q assms(3) show ?thesis
    by (simp add: assign_def update_owner_def claimable_def Let_def)
qed

lemma assign_not_forbidden:
  "fst (assign now ctx projectId ow re cu rd ot w) \<noteq> Inl (TRPCError FORBIDDEN msg)"
  by (auto simp: assign_def Let_def split: prod.splits list.splits option.splits)

lemma assign_claims:
  "assign now ctx projectId ow re cu rd ot w = (r, w') \<Longrightarrow>
     (case r of
        Inl e \<Rightarrow> projectClaims w' = projectClaims w
      | Inr res \<Rightarrow> \<exists>s. ctx_session ctx = Some s \<and>
          projectClaims w' = projectClaims w @ [approved_claim projectId (userId s) ow re cu rd ot])"
  by (auto simp: assign_def Let_def split: prod.splits list.splits option.splits)

lemma assign_calls:
  "calls (snd (assign now ctx projectId ow re cu rd ot w)) = calls w"
  by (auto simp: assign_def Let_def split: prod.splits list.splits option.splits)

lemma assign_no_session:
  assumes "ctx_session ctx = None" "assign now ctx projectId ow re cu rd ot w = (r, w')"
  shows "(\<exists>e. r = Inl e) \<and> map ownerId (projects w') = map ownerId (projects w) \<and>
         map project_id (projects w') = map project_id (projects w) \<and>
         projectClaims w' = projectClaims w"
proof -
  obtain ps rows where u: "update_owner projectId None now (projects w) = (ps, rows)"
    by (cases "update_owner projectId None now (projects w)") auto
  from update_owner_null [OF u] assms u show ?thesis
    by (auto simp: assign_def Let_def split: list.splits)
qed

lemma deny_no_session:
  assumes "ctx_session ctx = None"
  shows "deny ctx projectId cu rd w = (Inl (TypeError ''userId''), w)"
  using assms by (simp add: deny_def)

lemmas run_defs = verifyOwnership_def parseRepoIdentifier_def getCurrentUser_def getRepo_def
  getCached_def createCacheKey_def checkOwnership_def permissionLookup_def membershipLookup_def
  deny_def assign_def update_owner_def claimable_def provider_def world0_def ctx_of_def
  denied_claim_def approved_claim_def forbidden_message_def Let_def

lemmas fixture_defs = gh_direct_def gh_fallback_def gh_org_owner_def gh_write_def
  user_named_def repo_data_def org_admin_def not_found_def

lemma verifyOwnership_cases:
  assumes "verifyOwnership gh now identifier ctx projectId w = (r, w')"
  obtains
    (parse) e where "parseRepoIdentifier identifier = Inl e" "r = Inl e" "w' = w"
  | (identity) ow re e where "parseRepoIdentifier identifier = Inr (ow, re)"
      "getCurrentUser gh w = (Inl e, w')" "r = Inl e"
  | (repository) ow re cu w1 e where "parseRepoIdentifier identifier = Inr (ow, re)"
      "getCurrentUser gh w = (Inr cu, w1)" "getRepo gh now identifier w1 = (Inl e, w')" "r = Inl e"
  | (denied) ow re cu w1 rd w2 ot w3 where "parseRepoIdentifier identifier = Inr (ow, re)"
      "getCurrentUser gh w = (Inr cu, w1)" "getRepo gh now identifier w1 = (Inr rd, w2)"
      "checkOwnership gh ow re cu rd w2 = ((False, ot), w3)"
      "deny ctx projectId cu rd w3 = (r, w')"
  | (approved) ow re cu w1 rd w2 ot w3 where "parseRepoIdentifier identifier = Inr (ow, re)"
      "getCurrentUser gh w = (Inr cu, w1)" "getRepo gh now identifier w1 = (Inr rd, w2)"
      "checkOwnership gh ow re cu rd w2 = ((True, ot), w3)"
      "assign now ctx projectId ow re cu rd ot w3 = (r, w')"
  using assms unfolding verifyOwnership_def
  by (auto split: sum.splits prod.splits if_splits)

section \<open>Facts about the outcome of the checks\<close>

lemma getRepo_calls:
  assumes "getRepo gh now identifier w = (r, w')"
  shows "\<exists>cs. calls w' = calls w @ cs \<and> (\<forall>c \<in> set cs. \<not> is_lookup c)"
  using getRepo_db [OF assms] by fastforce

lemma approved_run:
  assumes "parseRepoIdentifier identifier = Inr (ow, re)"
    and "getCurrentUser gh w = (Inr cu, w1)"
    and "getRepo gh now identifier w1 = (Inr rd, w2)"
    and "checkOwnership gh ow re cu rd w2 = ((True, ot), w3)"
  shows "verifyOwnership gh now identifier ctx projectId w =
           assign now ctx projectId ow re cu rd ot w3"
  using assms by (simp add: verifyOwnership_def)

lemma denied_run:
  assumes "parseRepoIdentifier identifier = Inr (ow, re)"
    and "getCurrentUser gh w = (Inr cu, w1)"
    and "getRepo gh now identifier w1 = (Inr rd, w2)"
    and "checkOwnership gh ow re cu rd w2 = ((False, ot), w3)"
  shows "verifyOwnership gh now identifier ctx projectId w = deny ctx projectId cu rd w3"
  using assms by (simp add: verifyOwnership_def)

lemma approved_success:
  assumes "parseRepoIdentifier identifier = Inr (ow, re)"
    and "getCurrentUser gh w = (Inr cu, w1)"
    and "getRepo gh now identifier w1 = (Inr rd, w2)"
    and "checkOwnership gh ow re cu rd w2 = ((True, ot), w3)"
    and "ctx_session ctx = Some s" and "p \<in> set (projects w)" and "claimable projectId p"
  shows "\<exists>row. fst (verifyOwnership gh now identifier ctx projectId w) =
            Inr \<lparr>res_success = True, res_project = row, res_ownershipType = ot,
                 res_verifiedAs = username cu\<rparr> \<and>
          project_id row = projectId \<and> ownerId row = Some (userId s)"
proof -
  have "projects w3 = projects w"
    using getCurrentUser_db [OF assms(2)] getRepo_db [OF assms(3)] checkOwnership_db [OF assms(4)]
    by simp
  with assms(6) have "p \<in> set (projects w3)" by simp
  from assign_success [OF this assms(7) assms(5), of now ow re cu rd ot]
    approved_run [OF assms(1-4), of ctx projectId]
  show ?thesis by auto
qed

lemma approved_outcome:
  assumes "parseRepoIdentifier identifier = Inr (ow, re)"
    and "getCurrentUser gh w = (Inr cu, w1)"
    and "getRepo gh now identifier w1 = (Inr rd, w2)"
    and "checkOwnership gh ow re cu rd w2 = ((True, ot), w3)"
  shows "(\<forall>m. fst (verifyOwnership gh now identifier ctx projectId w)
                 \<noteq> Inl (TRPCError FORBIDDEN m)) \<and>
         (\<forall>c \<in> set (projectClaims (snd (verifyOwnership gh now identifier ctx projectId w))).
            c \<in> set (projectClaims w) \<or> success c) \<and>
         (\<forall>s p. ctx_session ctx = Some s \<and> p \<in> set (projects w) \<and> claimable projectId p \<longrightarrow>
            (\<exists>row. fst (verifyOwnership gh now identifier ctx projectId w) =
               Inr \<lparr>res_success = True, res_project = row,
                    res_ownershipType = ot, res_verifiedAs = username cu\<rparr> \<and>
               project_id row = projectId \<and> ownerId row = Some (userId s)))"
proof -
  let ?run = "verifyOwnership gh now identifier ctx projectId w"
  have run: "?run = assign now ctx projectId ow re cu rd ot w3"
    by (rule approved_run [OF assms])
  have db: "projectClaims w3 = projectClaims w"
    using getCurrentUser_db [OF assms(2)] getRepo_db [OF assms(3)] checkOwnership_db [OF assms(4)]
    by simp
  have a: "\<forall>m. fst ?run \<noteq> Inl (TRPCError FORBIDDEN m)"
    using run assign_not_forbidden by simp
  have "assign now ctx projectId ow re cu rd ot w3 = (fst ?run, snd ?run)"
    using run by simp
  from assign_claims [OF this] db
  have b: "\<forall>c \<in> set (projectClaims (snd ?run)). c \<in> set (projectClaims w) \<or> success c"
    by (cases "fst ?run") (auto simp: approved_claim_def)
  have c: "\<forall>s p. ctx_session ctx = Some s \<and> p \<in> set (projects w) \<and> claimable projectId p \<longrightarrow>
            (\<exists>row. fst ?run =
               Inr \<lparr>res_success = True, res_project = row,
                    res_ownershipType = ot, res_verifiedAs = username cu\<rparr> \<and>
               project_id row = projectId \<and> ownerId row = Some (userId s))"
    using approved_success [OF assms] by blast
  from a b c show ?thesis by blast
qed

lemma checkOwnership_admin_fallback:
  assumes "owner_type (owner rd) = ''Organization''"
    and "login (owner rd) \<noteq> username cu"
    and "repos_getCollaboratorPermissionLevel gh ow re (username cu) = Inr ''admin''"
    and "orgs_getMembershipForUser gh (login (owner rd)) (username cu) = Inl orgError"
  shows "checkOwnership gh ow re cu rd w =
     ((True, ''repository admin''),
      w\<lparr>calls := calls w @ [GetCollaboratorPermissionLevel ow re (username cu),
                            GetMembershipForUser (login (owner rd)) (username cu)]\<rparr>)"
  using assms by (simp add: checkOwnership_def permissionLookup_def membershipLookup_def)

lemma checkOwnership_org:
  assumes "owner_type (owner rd) = ''Organization''"
    and "login (owner rd) \<noteq> username cu"
  shows "checkOwnership gh ow re cu rd w =
     (case repos_getCollaboratorPermissionLevel gh ow re (username cu) of
        Inl err \<Rightarrow>
          ((case orgs_getMembershipForUser gh (login (owner rd)) (username cu) of
              Inl orgError \<Rightarrow> (False, [])
            | Inr m \<Rightarrow> if m_role m = ''admin'' \<and> m_state m = ''active''
                       then (True, ''organization owner'') else (False, [])),
           w\<lparr>calls := calls w @ [GetCollaboratorPermissionLevel ow re (username cu),
                                 GetMembershipForUser (login (owner rd)) (username cu)]\<rparr>)
      | Inr level \<Rightarrow>
          if level = ''admin'' then
            ((case orgs_getMembershipForUser gh (login (owner rd)) (username cu) of
                Inl orgError \<Rightarrow> (True, ''repository admin'')
              | Inr m \<Rightarrow> if m_role m = ''admin'' \<and> m_state m = ''active''
                         then (True, ''organization owner'') else (False, [])),
             w\<lparr>calls := calls w @ [GetCollaboratorPermissionLevel ow re (username cu),
                                   GetMembershipForUser (login (owner rd)) (username cu)]\<rparr>)
          else ((False, []),
                w\<lparr>calls := calls w @ [GetCollaboratorPermissionLevel ow re (username cu)]\<rparr>))"
  using assms
  by (simp add: checkOwnership_def permissionLookup_def membershipLookup_def
      split: sum.splits)

lemma provider_user:
  "getCurrentUser (provider u ol ot perm mem) w
     = (Inr (user_named u), snd (getCurrentUser (provider u ol ot perm mem) w))"
  by (simp add: getCurrentUser_def provider_def user_named_def)

lemma provider_repo:
  assumes "parseRepoIdentifier identifier = Inr (ow, re)"
    and "cache w (createCacheKey ''github'' ''repo'' identifier) = None"
  shows "getRepo (provider u ol ot perm mem) now identifier w
     = (Inr (repo_data ow re ol ot), snd (getRepo (provider u ol ot perm mem) now identifier w))"
  using assms by (simp add: getRepo_def getCached_def provider_def repo_data_def)

lemma getCurrentUser_cache: "cache (snd (getCurrentUser gh w)) = cache w"
  by (simp add: getCurrentUser_def Let_def split: sum.splits)

lemma parse_acme: "parseRepoIdentifier ''acme/widgets'' = Inr (''acme'', ''widgets'')"
  by (simp add: parseRepoIdentifier_def)

lemma parse_octocat:
  "parseRepoIdentifier ''octocat/Hello-World'' = Inr (''octocat'', ''Hello-World'')"
  by (simp add: parseRepoIdentifier_def)

section \<open>Facts about denial and propagated failures\<close>












section \<open>Facts about calls in flight\<close>

lemma update_owner_keeps_assigned:
  assumes "owner_assigned ps c"
  shows "owner_assigned (fst (update_owner projectId uid now ps)) c"
proof -
  from assms obtain p where p: "p \<in> set ps" "project_id p = pc_projectId c"
    "ownerId p = Some (pc_userId c)"
    by (auto simp: owner_assigned_def)
  then have "\<not> claimable projectId p" by (simp add: claimable_def)
  with p(1) have "p \<in> set (fst (update_owner projectId uid now ps))"
    by (force simp: update_owner_def)
  with p(2,3) show ?thesis by (auto simp: owner_assigned_def)
qed

lemma update_owner_assigns:
  assumes "update_owner projectId (Some u) now ps = (ps', p # rest)"
  shows "\<exists>q \<in> set ps'. project_id q = projectId \<and> ownerId q = Some u"
proof -
  from assms have "filter (claimable projectId) ps \<noteq> []"
    by (auto simp: update_owner_def)
  then obtain q where q: "q \<in> set ps" "claimable projectId q"
    by (auto simp: filter_empty_conv)
  then have "q\<lparr>ownerId := Some u, updatedAt := now\<rparr> \<in> set ps'"
    using assms by (force simp: update_owner_def)
  moreover have "project_id (q\<lparr>ownerId := Some u, updatedAt := now\<rparr>) = projectId"
    "ownerId (q\<lparr>ownerId := Some u, updatedAt := now\<rparr>) = Some u"
    using q(2) by (simp_all add: claimable_def)
  ultimately show ?thesis by blast
qed

lemma step_projectClaims:
  "step t w = (t', w') \<Longrightarrow>
     (\<forall>c \<in> set (projectClaims w'). c \<in> set (projectClaims w) \<or> (\<exists>r. t = DoInsert c r))"
  by (cases t) (auto simp: Let_def split: prod.splits list.splits option.splits)

lemma step_keeps_assigned:
  assumes "step t w = (t', w')" "owner_assigned (projects w) c"
  shows "owner_assigned (projects w') c"
proof (cases t)
  case (DoUpdate now ctx projectId ow re cu rd ot)
  let ?uid = "case ctx_session ctx of None \<Rightarrow> None | Some s \<Rightarrow> Some (userId s)"
  from assms(1) DoUpdate have "projects w' = fst (update_owner projectId ?uid now (projects w))"
    by (auto simp: Let_def split: prod.splits list.splits option.splits)
  with update_owner_keeps_assigned [OF assms(2)] show ?thesis by simp
next
  case (DoInsert c' r)
  with assms show ?thesis by auto
next
  case (Finished r)
  with assms show ?thesis by auto
qed

lemma step_task_ok:
  assumes "step t w = (t', w')" "task_ok w t"
  shows "task_ok w' t'"
proof (cases t)
  case (DoUpdate now ctx projectId ow re cu rd ot)
  show ?thesis
  proof (cases "ctx_session ctx")
    case None
    with assms(1) DoUpdate show ?thesis
      by (auto simp: Let_def split: prod.splits list.splits)
  next
    case (Some s)
    obtain ps rows where u: "update_owner projectId (Some (userId s)) now (projects w) = (ps, rows)"
      by (cases "update_owner projectId (Some (userId s)) now (projects w)") auto
    show ?thesis
    proof (cases rows)
      case Nil
      with assms(1) DoUpdate Some u show ?thesis by auto
    next
      case (Cons p rest)
      with update_owner_assigns [of projectId "userId s" now "projects w" ps p rest] u
      have "\<exists>q \<in> set ps. project_id q = projectId \<and> ownerId q = Some (userId s)" by simp
      with assms(1) DoUpdate Some u Cons show ?thesis
        by (auto simp: owner_assigned_def approved_claim_def)
    qed
  qed
next
  case (DoInsert c r)
  with assms show ?thesis by auto
next
  case (Finished r)
  with assms show ?thesis by auto
qed

lemma start_cases:
  assumes "start gh now identifier ctx projectId w = (t, w')"
  obtains
    (parse) e where "parseRepoIdentifier identifier = Inl e" "t = Finished (Inl e)" "w' = w"
  | (identity) ow re e where "parseRepoIdentifier identifier = Inr (ow, re)"
      "getCurrentUser gh w = (Inl e, w')" "t = Finished (Inl e)"
  | (repository) ow re cu w1 e where "parseRepoIdentifier identifier = Inr (ow, re)"
      "getCurrentUser gh w = (Inr cu, w1)" "getRepo gh now identifier w1 = (Inl e, w')"
      "t = Finished (Inl e)"
  | (denied) ow re cu w1 rd w2 ot where "parseRepoIdentifier identifier = Inr (ow, re)"
      "getCurrentUser gh w = (Inr cu, w1)" "getRepo gh now identifier w1 = (Inr rd, w2)"
      "checkOwnership gh ow re cu rd w2 = ((False, ot), w')"
      "t = (case ctx_session ctx of
              None \<Rightarrow> Finished (Inl (TypeError ''userId''))
            | Some s \<Rightarrow> DoInsert (denied_claim projectId (userId s) cu rd)
                (Inl (TRPCError FORBIDDEN
                   (forbidden_message (username cu) (login (owner rd))))))"
  | (approved) ow re cu w1 rd w2 ot where "parseRepoIdentifier identifier = Inr (ow, re)"
      "getCurrentUser gh w = (Inr cu, w1)" "getRepo gh now identifier w1 = (Inr rd, w2)"
      "checkOwnership gh ow re cu rd w2 = ((True, ot), w')"
      "t = DoUpdate now ctx projectId ow re cu rd ot"
  using assms unfolding start_def
  by (auto split: sum.splits prod.splits if_splits option.splits)

lemma start_db:
  assumes "start gh now identifier ctx projectId w = (t, w')"
  shows "projects w' = projects w \<and> projectClaims w' = projectClaims w"
  using assms
proof (cases rule: start_cases)
  case (parse e)
  then show ?thesis by simp
next
  case (identity ow re e)
  with getCurrentUser_db [OF identity(2)] show ?thesis by simp
next
  case (repository ow re cu w1 e)
  with getCurrentUser_db [OF repository(2)] getRepo_db [OF repository(3)] show ?thesis by simp
next
  case (denied ow re cu w1 rd w2 ot)
  with getCurrentUser_db [OF denied(2)] getRepo_db [OF denied(3)] checkOwnership_db [OF denied(4)]
  show ?thesis by simp
next
  case (approved ow re cu w1 rd w2 ot)
  with getCurrentUser_db [OF approved(2)] getRepo_db [OF approved(3)]
    checkOwnership_db [OF approved(4)]
  show ?thesis by simp
qed

lemma start_task_ok:
  assumes "start gh now identifier ctx projectId w = (t, w')"
  shows "task_ok w' t"
  using assms
  by (cases rule: start_cases) (auto simp: denied_claim_def split: option.splits)

lemma verifyOwnership_steps:
  "steps 2 (start gh now identifier ctx projectId w) =
     (Finished (fst (verifyOwnership gh now identifier ctx projectId w)),
      snd (verifyOwnership gh now identifier ctx projectId w))"
  unfolding start_def verifyOwnership_def
  by (auto simp: numeral_2_eq_2 deny_def assign_def Let_def
      split: sum.splits prod.splits option.splits list.splits)

lemma task_ok_kept:
  assumes "step t w = (t', w')" "task_ok w u"
  shows "task_ok w' u"
  using assms step_keeps_assigned [OF assms(1)] by (cases u) auto

lemma interleave_inv:
  assumes "interleave c c'" "inv c"
  shows "inv c'"
  using assms
proof (induction rule: interleave.induct)
  case (arrive gh now ident ctx projectId w t w' ts)
  have db: "projects w' = projects w" "projectClaims w' = projectClaims w"
    using start_db [OF arrive(1)] by simp_all
  have same: "task_ok w' u = task_ok w u" for u
    using db(1) by (cases u) simp_all
  from arrive(2) db have "consistent w'" by (simp add: inv_def consistent_def)
  moreover from arrive(2) same start_task_ok [OF arrive(1)]
  have "\<forall>u \<in> set (ts @ [t]). task_ok w' u" by (auto simp: inv_def)
  ultimately show ?case by (simp add: inv_def)
next
  case (advance i ts w t' w')
  have ok: "task_ok w (ts ! i)" using advance(1,3) by (simp add: inv_def)
  have c: "consistent w'"
    unfolding consistent_def
  proof (intro ballI impI)
    fix c assume c: "c \<in> set (projectClaims w')" "success c"
    from step_projectClaims [OF advance(2)] c(1)
    have "c \<in> set (projectClaims w) \<or> (\<exists>r. ts ! i = DoInsert c r)" by blast
    then have "owner_assigned (projects w) c"
      using advance(3) c(2) ok by (auto simp: inv_def consistent_def)
    then show "owner_assigned (projects w') c"
      by (rule step_keeps_assigned [OF advance(2)])
  qed
  have "\<forall>t \<in> set (ts[i := t']). task_ok w' t"
  proof
    fix t assume "t \<in> set (ts[i := t'])"
    then have "t = t' \<or> t \<in> set ts" by (auto dest: set_update_subset_insert [THEN subsetD])
    then show "task_ok w' t"
    proof
      assume "t = t'"
      with step_task_ok [OF advance(2) ok] show ?thesis by simp
    next
      assume "t \<in> set ts"
      with advance(3) have "task_ok w t" by (simp add: inv_def)
      then show ?thesis by (rule task_ok_kept [OF advance(2)])
    qed
  qed
  with c show ?case by (simp add: inv_def)
qed

lemma reachable_inv:
  assumes "interleave\<^sup>*\<^sup>* c c'" "inv c"
  shows "inv c'"
  using assms by (induction rule: rtranclp_induct) (auto intro: interleave_inv)

lemma success_order:
  assumes "verifyOwnership gh now identifier ctx projectId w = (Inr res, w')"
  shows "\<exists>t0 w0 c wm.
     start gh now identifier ctx projectId w = (t0, w0) \<and>
     projects w0 = projects w \<and> projectClaims w0 = projectClaims w \<and>
     step t0 w0 = (DoInsert c (Inr res), wm) \<and>
     projectClaims wm = projectClaims w \<and>
     success c \<and> pc_projectId c = projectId \<and> owner_assigned (projects wm) c \<and>
     step (DoInsert c (Inr res)) wm = (Finished (Inr res), w') \<and>
     projectClaims w' = projectClaims w @ [c] \<and> projects w' = projects wm"
  using assms
proof (cases rule: verifyOwnership_cases)
  case (denied ow re cu w1 rd w2 ot w3)
  then show ?thesis by (auto simp: deny_def split: option.splits)
next
  case (approved ow re cu w1 rd w2 ot w3)
  let ?t0 = "DoUpdate now ctx projectId ow re cu rd ot"
  have st: "start gh now identifier ctx projectId w = (?t0, w3)"
    using approved(1-4) by (simp add: start_def)
  have db: "projects w3 = projects w" "projectClaims w3 = projectClaims w"
    using start_db [OF st] by simp_all
  from approved(5) obtain s where s: "ctx_session ctx = Some s"
    by (cases "ctx_session ctx") (auto simp: assign_def Let_def split: prod.splits list.splits)
  obtain ps rows where u: "update_owner projectId (Some (userId s)) now (projects w3) = (ps, rows)"
    by (cases "update_owner projectId (Some (userId s)) now (projects w3)") auto
  from approved(5) s u obtain p rest where rows: "rows = p # rest"
    by (cases rows) (auto simp: assign_def)
  let ?c = "approved_claim projectId (userId s) ow re cu rd ot"
  let ?wm = "w3\<lparr>projects := ps\<rparr>"
  from approved(5) s u rows have res:
    "res = \<lparr>res_success = True, res_project = p, res_ownershipType = ot,
            res_verifiedAs = username cu\<rparr>"
    "w' = ?wm\<lparr>projectClaims := projectClaims ?wm @ [?c]\<rparr>"
    by (auto simp: assign_def)
  have s1: "step ?t0 w3 = (DoInsert ?c (Inr res), ?wm)"
    using s u rows res(1) by simp
  have "task_ok ?wm (DoInsert ?c (Inr res))"
    by (rule step_task_ok [OF s1]) simp
  then have oa: "owner_assigned (projects ?wm) ?c" by (simp add: approved_claim_def)
  have s2: "step (DoInsert ?c (Inr res)) ?wm = (Finished (Inr res), w')"
    using res(2) by simp
  have "success ?c" "pc_projectId ?c = projectId" by (simp_all add: approved_claim_def)
  with st db s1 oa s2 res(2) show ?thesis by auto
qed simp_all

section \<open>Facts about the paging loop\<close>

lemma fetchLoop_Suc_cases:
  assumes "fetchLoop (Suc fuel) gq user sf limit hasNext cursor acc = Some (Inr prs)"
  obtains
    (stop_now) "\<not> (hasNext \<and> int (length acc) < limit)" "prs = acc"
  | (last_page) page where "hasNext" "int (length acc) < limit"
      "gq user (min 100 (limit - int (length acc))) cursor = Inr (Some page)"
      "\<not> hasNextPage (pageInfo page) \<or>
         limit \<le> int (length (acc @ filter (keepPR sf) (map formatPR (nodes page))))"
      "prs = acc @ filter (keepPR sf) (map formatPR (nodes page))"
  | (more_pages) page where "hasNext" "int (length acc) < limit"
      "gq user (min 100 (limit - int (length acc))) cursor = Inr (Some page)"
      "hasNextPage (pageInfo page)"
      "int (length (acc @ filter (keepPR sf) (map formatPR (nodes page)))) < limit"
      "fetchLoop fuel gq user sf limit (hasNextPage (pageInfo page)) (endCursor (pageInfo page))
         (acc @ filter (keepPR sf) (map formatPR (nodes page))) = Some (Inr prs)"
proof (cases "hasNext \<and> int (length acc) < limit")
  case False
  with assms have "prs = acc" by (simp split: if_splits)
  with False show ?thesis by (rule stop_now)
next
  case True
  then have c: "hasNext" "int (length acc) < limit" by simp_all
  from assms c have eq:
    "(case gq user (min 100 (limit - int (length acc))) cursor of
           Inl f \<Rightarrow> Some (Inl (RequestError f))
         | Inr None \<Rightarrow>
             Some (Inl (TRPCError NOT_FOUND (''GitHub user '' @ [CHR 0x27] @ user @ [CHR 0x27] @ '' not found'')))
         | Inr (Some prs) \<Rightarrow>
             (let filteredPRs = filter (keepPR sf) (map formatPR (nodes prs));
                  allPRs1 = acc @ filteredPRs;
                  hasNext1 = hasNextPage (pageInfo prs);
                  cursor1 = endCursor (pageInfo prs)
              in if \<not> hasNext1 \<or> limit \<le> int (length allPRs1) then Some (Inr allPRs1)
                 else fetchLoop fuel gq user sf limit hasNext1 cursor1 allPRs1))
       = Some (Inr prs)"
    by (simp only: fetchLoop.simps if_True simp_thms)
  show ?thesis
  proof (cases "gq user (min 100 (limit - int (length acc))) cursor")
    case (Inl f)
    with eq show ?thesis by (simp only: sum.case option.inject sum.inject sum.distinct)
  next
    case (Inr resp)
    show ?thesis
    proof (cases resp)
      case None
      with eq Inr show ?thesis
        by (simp only: sum.case option.case option.inject sum.inject sum.distinct)
    next
      case (Some page)
      let ?acc = "acc @ filter (keepPR sf) (map formatPR (nodes page))"
      from Inr Some have g: "gq user (min 100 (limit - int (length acc))) cursor = Inr (Some page)"
        by (simp only:)
      from eq Inr Some have eq2:
        "(if \<not> hasNextPage (pageInfo page) \<or> limit \<le> int (length ?acc) then Some (Inr ?acc)
          else fetchLoop fuel gq user sf limit (hasNextPage (pageInfo page))
                 (endCursor (pageInfo page)) ?acc) = Some (Inr prs)"
        by (simp only: sum.case option.case Let_def)
      show ?thesis
      proof (cases "\<not> hasNextPage (pageInfo page) \<or> limit \<le> int (length ?acc)")
        case stop: True
        with eq2 have "prs = ?acc" by (simp only: if_True option.inject sum.inject)
        then show ?thesis by (rule last_page [OF c g stop])
      next
        case False
        with eq2 have r: "fetchLoop fuel gq user sf limit (hasNextPage (pageInfo page))
                 (endCursor (pageInfo page)) ?acc = Some (Inr prs)"
          by (simp only: if_False)
        from False have h: "hasNextPage (pageInfo page)" "int (length ?acc) < limit"
          by (simp_all only: de_Morgan_disj not_not not_le)
        show ?thesis by (rule more_pages [OF c g h r])
      qed
    qed
  qed
qed

lemma fetchLoop_filtered:
  assumes "fetchLoop fuel gq user sf limit hasNext cursor acc = Some (Inr prs)"
    and "\<forall>pr \<in> set acc. keepPR sf pr"
  shows "\<forall>pr \<in> set prs. keepPR sf pr"
  using assms
proof (induction fuel arbitrary: hasNext cursor acc)
  case 0
  then show ?case by simp
next
  case (Suc fuel)
  from Suc.prems(1) show ?case
  proof (cases rule: fetchLoop_Suc_cases)
    case stop_now
    with Suc.prems(2) show ?thesis by simp
  next
    case (last_page page)
    with Suc.prems(2) show ?thesis by auto
  next
    case (more_pages page)
    have "\<forall>pr \<in> set (acc @ filter (keepPR sf) (map formatPR (nodes page))). keepPR sf pr"
      using Suc.prems(2) by auto
    from Suc.IH [OF more_pages(6) this] show ?thesis .
  qed
qed

lemma fetchLoop_formatted:
  assumes "fetchLoop fuel gq user sf limit hasNext cursor acc = Some (Inr prs)"
    and "\<forall>pr \<in> set acc. pr \<in> range formatPR"
  shows "\<forall>pr \<in> set prs. pr \<in> range formatPR"
  using assms
proof (induction fuel arbitrary: hasNext cursor acc)
  case 0
  then show ?case by simp
next
  case (Suc fuel)
  from Suc.prems(1) show ?case
  proof (cases rule: fetchLoop_Suc_cases)
    case stop_now
    with Suc.prems(2) show ?thesis by simp
  next
    case (last_page page)
    with Suc.prems(2) show ?thesis by auto
  next
    case (more_pages page)
    have "\<forall>pr \<in> set (acc @ filter (keepPR sf) (map formatPR (nodes page))). pr \<in> range formatPR"
      using Suc.prems(2) by auto
    from Suc.IH [OF more_pages(6) this] show ?thesis .
  qed
qed

lemma fetchLoop_returns:
  assumes "progresses gq user sf"
    and "nat (limit - int (length acc)) < fuel"
  shows "\<exists>r. fetchLoop fuel gq user sf limit hasNext cursor acc = Some r"
  using assms(2)
proof (induction fuel arbitrary: hasNext cursor acc)
  case 0
  then show ?case by simp
next
  case (Suc fuel)
  show ?case
  proof (cases "hasNext \<and> int (length acc) < limit")
    case False
    then show ?thesis by (simp del: de_Morgan_conj)
  next
    case True
    show ?thesis
    proof (cases "gq user (min 100 (limit - int (length acc))) cursor")
      case (Inl f)
      with True show ?thesis by simp
    next
      case (Inr resp)
      show ?thesis
      proof (cases resp)
        case None
        with True Inr show ?thesis by simp
      next
        case (Some page)
        let ?new = "filter (keepPR sf) (map formatPR (nodes page))"
        show ?thesis
        proof (cases "\<not> hasNextPage (pageInfo page) \<or> limit \<le> int (length (acc @ ?new))")
          case stop: True
          with True Inr Some show ?thesis by (simp add: Let_def)
        next
          case False
          then have more: "hasNextPage (pageInfo page)" by simp
          with assms(1) Inr Some have "?new \<noteq> []" unfolding progresses_def by blast
          then have "0 < length ?new" by (rule length_greater_0_conv [THEN iffD2])
          moreover have "length (acc @ ?new) = length acc + length ?new"
            by (simp only: length_append)
          ultimately have "length acc < length (acc @ ?new)" by linarith
          with Suc.prems True have "nat (limit - int (length (acc @ ?new))) < fuel" by linarith
          from Suc.IH [OF this, of "hasNextPage (pageInfo page)" "endCursor (pageInfo page)"]
          obtain r where "fetchLoop fuel gq user sf limit (hasNextPage (pageInfo page))
               (endCursor (pageInfo page)) (acc @ ?new) = Some r" ..
          with True Inr Some False show ?thesis by (simp add: Let_def)
        qed
      qed
    qed
  qed
qed

lemma slice0_subset: "set (slice0 xs e) \<subseteq> set xs"
  unfolding slice0_def using set_take_subset [of _ xs] by simp

lemma slice0_length: "0 \<le> e \<Longrightarrow> length (slice0 xs e) \<le> nat e"
  by (simp add: slice0_def)

lemma slice0_Nil: "slice0 [] e = []"
  by (simp add: slice0_def)

lemma fetchLoop_no_limit:
  "limit \<le> 0 \<Longrightarrow> fetchLoop fuel gq user sf limit hasNext cursor [] = Some (Inr prs) \<Longrightarrow> prs = []"
  by (cases fuel) auto

lemma formatPR_mergedAt:
  "falsy (mergedAt (formatPR n)) \<longleftrightarrow> mergedAt (formatPR n) = None"
  "mergedAt (formatPR n) = Some t \<Longrightarrow> t \<noteq> []"
  by (cases "node_mergedAt n"; simp add: formatPR_def split: if_splits)+

lemma getUserPullRequests_Inr:
  assumes "getUserPullRequests fuel gq user options = Some (Inr prs)"
  obtains allPRs where
    "fetchLoop fuel gq user (effective_state options) (effective_limit options) True None []
       = Some (Inr allPRs)"
    "prs = slice0 allPRs (effective_limit options)"
  using assms
  by (auto simp: getUserPullRequests_def Let_def split: option.splits sum.splits)

lemma getUserPullRequests_kept:
  assumes "getUserPullRequests fuel gq user options = Some (Inr prs)"
  shows "\<forall>pr \<in> set prs. keepPR (effective_state options) pr \<and> pr \<in> range formatPR"
proof -
  from assms obtain allPRs where a:
    "fetchLoop fuel gq user (effective_state options) (effective_limit options) True None []
       = Some (Inr allPRs)"
    "prs = slice0 allPRs (effective_limit options)"
    by (rule getUserPullRequests_Inr)
  have "\<forall>pr \<in> set allPRs. keepPR (effective_state options) pr"
    by (rule fetchLoop_filtered [OF a(1)]) simp
  moreover have "\<forall>pr \<in> set allPRs. pr \<in> range formatPR"
    by (rule fetchLoop_formatted [OF a(1)]) simp
  ultimately show ?thesis using slice0_subset [of allPRs "effective_limit options"] a(2)
    by blast
qed

lemma getUserPullRequests_length:
  assumes "getUserPullRequests fuel gq user options = Some (Inr prs)"
  shows "int (length prs) \<le> max 0 (effective_limit options)"
proof -
  from assms obtain allPRs where a:
    "fetchLoop fuel gq user (effective_state options) (effective_limit options) True None []
       = Some (Inr allPRs)"
    "prs = slice0 allPRs (effective_limit options)"
    by (rule getUserPullRequests_Inr)
  show ?thesis
  proof (cases "0 \<le> effective_limit options")
    case True
    with slice0_length [OF True, of allPRs] a(2) show ?thesis by simp
  next
    case False
    then have "effective_limit options \<le> 0" by simp
    from fetchLoop_no_limit [OF this a(1)] a(2) show ?thesis by (simp add: slice0_Nil)
  qed
qed

lemma getUserPullRequests_returns:
  assumes "progresses gq user (effective_state options)"
    and "nat (effective_limit options) < fuel"
  shows "\<exists>r. getUserPullRequests fuel gq user options = Some r"
proof -
  from assms(2) have "nat (effective_limit options - int (length ([] :: UserPullRequestData list))) < fuel"
    by simp
  from fetchLoop_returns [OF assms(1) this, of True None]
  obtain r where "fetchLoop fuel gq user (effective_state options) (effective_limit options)
      True None [] = Some r" ..
  then show ?thesis by (cases r) (simp_all add: getUserPullRequests_def)
qed

lemma endless_run:
  assumes "0 < l" "l \<le> 100" "keepPR sf (formatPR n)"
  shows "getUserPullRequests (Suc fuel) (endless n) user (Some \<lparr>opt_state = Some sf, opt_limit = Some l\<rparr>)
     = Some (Inr (replicate (nat l) (formatPR n)))"
  using assms
  by (simp add: getUserPullRequests_def effective_limit_def effective_state_def endless_def
      slice0_def Let_def)

lemma endless_progresses:
  "keepPR sf (formatPR n) \<Longrightarrow> progresses (endless n) user sf"
  by (auto simp: progresses_def endless_def)

section \<open>Claims\<close>

subsection \<open>A claimed project is not claimed again\<close>

text \<open>
  C1: when every row with the given project id already has an owner and the call passes
  the ownership checks, the conditional update (rows with that id and a null owner)
  changes no row and returns none, the call fails with the conflict error, the project
  table is left as it was, so the owner is not overwritten, and no claim row is
  written.
\<close>

theorem C1_claimed_project_conflict:
  assumes "parseRepoIdentifier identifier = Inr (ow, re)"
    and "getCurrentUser gh w = (Inr cu, w1)"
    and "getRepo gh now identifier w1 = (Inr rd, w2)"
    and "checkOwnership gh ow re cu rd w2 = ((True, ot), w3)"
    and "\<forall>p \<in> set (projects w). project_id p = projectId \<longrightarrow> ownerId p \<noteq> None"
  shows "update_owner projectId uid now (projects w3) = (projects w3, []) \<and>
         verifyOwnership gh now identifier ctx projectId w =
           (Inl (TRPCError CONFLICT ''Project has already been claimed by another user''), w3) \<and>
         projects w3 = projects w \<and> projectClaims w3 = projectClaims w"
proof -
  have db: "projects w3 = projects w" "projectClaims w3 = projectClaims w"
    using getCurrentUser_db [OF assms(2)] getRepo_db [OF assms(3)] checkOwnership_db [OF assms(4)]
    by simp_all
  with assms(5) have owned: "\<forall>p \<in> set (projects w3). project_id p = projectId \<longrightarrow> ownerId p \<noteq> None"
    by simp
  have "verifyOwnership gh now identifier ctx projectId w =
          assign now ctx projectId ow re cu rd ot w3"
    using assms(1-4) by (simp add: verifyOwnership_def)
  with assign_conflict [OF owned] update_owner_none [OF owned] db show ?thesis by simp
qed

theorem C1_claimed_project_conflict_witness:
  "fst (verifyOwnership gh_direct 100 ''octocat/Hello-World'' (ctx_of (Some ''u2'')) ''p1''
          (world0 (Some ''u1''))) =
     Inl (TRPCError CONFLICT ''Project has already been claimed by another user'') \<and>
   projects (snd (verifyOwnership gh_direct 100 ''octocat/Hello-World'' (ctx_of (Some ''u2''))
          ''p1'' (world0 (Some ''u1'')))) =
     [\<lparr>project_id = ''p1'', ownerId = Some ''u1'', updatedAt = 0\<rparr>] \<and>
   projectClaims (snd (verifyOwnership gh_direct 100 ''octocat/Hello-World''
          (ctx_of (Some ''u2'')) ''p1'' (world0 (Some ''u1'')))) = []"
proof -
  let ?w = "world0 (Some ''u1'')"
  let ?w1 = "snd (getCurrentUser gh_direct ?w)"
  let ?w2 = "snd (getRepo gh_direct 100 ''octocat/Hello-World'' ?w1)"
  let ?rd = "repo_data ''octocat'' ''Hello-World'' ''octocat'' ''User''"
  have h1: "parseRepoIdentifier ''octocat/Hello-World'' = Inr (''octocat'', ''Hello-World'')"
    by (simp add: parseRepoIdentifier_def)
  have h2: "getCurrentUser gh_direct ?w = (Inr (user_named ''octocat''), ?w1)"
    by (simp add: getCurrentUser_def fixture_defs provider_def)
  have h3: "getRepo gh_direct 100 ''octocat/Hello-World'' ?w1 = (Inr ?rd, ?w2)"
    by (simp add: getRepo_def getCached_def getCurrentUser_def fixture_defs provider_def
        world0_def h1)
  have h4: "checkOwnership gh_direct ''octocat'' ''Hello-World'' (user_named ''octocat'') ?rd ?w2
              = ((True, ''repository owner''), ?w2)"
    by (simp add: checkOwnership_def fixture_defs)
  have h5: "\<forall>p \<in> set (projects ?w). project_id p = ''p1'' \<longrightarrow> ownerId p \<noteq> None"
    by (simp add: world0_def)
  from C1_claimed_project_conflict [OF h1 h2 h3 h4 h5, of None "ctx_of (Some ''u2'')"]
  show ?thesis by (simp add: world0_def)
qed

subsection \<open>The repository-admin fallback\<close>

text \<open>
  C2: for a repository of an organisation whose owner login differs from the caller's,
  a collaborator-permission lookup answering \<^verbatim>\<open>admin\<close> followed by a failing membership
  lookup gives \<open>isOwner\<close> true with ownership type \<^verbatim>\<open>repository admin\<close>. The attempt is
  approved: the call is never denied, writes no failing claim row, and with a session
  and an unclaimed row of the project it returns success with that ownership type.
\<close>

theorem C2_repository_admin_fallback:
  assumes "parseRepoIdentifier identifier = Inr (ow, re)"
    and "getCurrentUser gh w = (Inr cu, w1)"
    and "getRepo gh now identifier w1 = (Inr rd, w2)"
    and "owner_type (owner rd) = ''Organization''"
    and "login (owner rd) \<noteq> username cu"
    and "repos_getCollaboratorPermissionLevel gh ow re (username cu) = Inr ''admin''"
    and "orgs_getMembershipForUser gh (login (owner rd)) (username cu) = Inl orgError"
  shows "fst (checkOwnership gh ow re cu rd w2) = (True, ''repository admin'') \<and>
         (\<forall>m. fst (verifyOwnership gh now identifier ctx projectId w)
                 \<noteq> Inl (TRPCError FORBIDDEN m)) \<and>
         (\<forall>c \<in> set (projectClaims (snd (verifyOwnership gh now identifier ctx projectId w))).
            c \<in> set (projectClaims w) \<or> success c) \<and>
         (\<forall>s p. ctx_session ctx = Some s \<and> p \<in> set (projects w) \<and> claimable projectId p \<longrightarrow>
            (\<exists>row. fst (verifyOwnership gh now identifier ctx projectId w) =
               Inr \<lparr>res_success = True, res_project = row,
                    res_ownershipType = ''repository admin'', res_verifiedAs = username cu\<rparr> \<and>
               project_id row = projectId \<and> ownerId row = Some (userId s)))"
  using checkOwnership_admin_fallback [OF assms(4-7), of w2]
    approved_outcome [OF assms(1-3) checkOwnership_admin_fallback [OF assms(4-7), of w2],
      of ctx projectId]
  by simp

theorem C2_repository_admin_fallback_witness:
  "fst (verifyOwnership gh_fallback 100 ''acme/widgets'' (ctx_of (Some ''u1'')) ''p1''
          (world0 None)) =
     Inr \<lparr>res_success = True,
          res_project = \<lparr>project_id = ''p1'', ownerId = Some ''u1'', updatedAt = 100\<rparr>,
          res_ownershipType = ''repository admin'', res_verifiedAs = ''alice''\<rparr>"
proof -
  let ?w = "world0 None"
  let ?w1 = "snd (getCurrentUser gh_fallback ?w)"
  let ?w2 = "snd (getRepo gh_fallback 100 ''acme/widgets'' ?w1)"
  let ?cu = "user_named ''alice''"
  let ?rd = "repo_data ''acme'' ''widgets'' ''acme'' ''Organization''"
  have h2: "getCurrentUser gh_fallback ?w = (Inr ?cu, ?w1)"
    unfolding gh_fallback_def by (rule provider_user)
  have "cache ?w1 (createCacheKey ''github'' ''repo'' ''acme/widgets'') = None"
    by (simp add: getCurrentUser_cache world0_def)
  then have h3: "getRepo gh_fallback 100 ''acme/widgets'' ?w1 = (Inr ?rd, ?w2)"
    unfolding gh_fallback_def by (rule provider_repo [OF parse_acme])
  have h4: "owner_type (owner ?rd) = ''Organization''" by (simp add: repo_data_def)
  have h5: "login (owner ?rd) \<noteq> username ?cu" by (simp add: repo_data_def user_named_def)
  have h6: "repos_getCollaboratorPermissionLevel gh_fallback ''acme'' ''widgets'' (username ?cu)
              = Inr ''admin''"
    by (simp add: gh_fallback_def provider_def)
  have h7: "orgs_getMembershipForUser gh_fallback (login (owner ?rd)) (username ?cu)
              = Inl not_found"
    by (simp add: gh_fallback_def provider_def)
  have h8: "ctx_session (ctx_of (Some ''u1'')) = Some \<lparr>userId = ''u1''\<rparr>"
    by (simp add: ctx_of_def)
  have h9: "\<lparr>project_id = ''p1'', ownerId = None, updatedAt = 0\<rparr> \<in> set (projects ?w) \<and>
            claimable ''p1'' \<lparr>project_id = ''p1'', ownerId = None, updatedAt = 0\<rparr>"
    by (simp add: world0_def claimable_def)
  from C2_repository_admin_fallback [OF parse_acme h2 h3 h4 h5 h6 h7,
      of "ctx_of (Some ''u1'')" "''p1''"] h8 h9
  obtain row where "fst (verifyOwnership gh_fallback 100 ''acme/widgets''
       (ctx_of (Some ''u1'')) ''p1'' ?w) =
     Inr \<lparr>res_success = True, res_project = row,
          res_ownershipType = ''repository admin'', res_verifiedAs = username ?cu\<rparr>"
    by blast
  then show ?thesis by (simp add: run_defs fixture_defs)
qed

subsection \<open>The membership lookup of the organisation path\<close>

text \<open>
  C3, as the specification states it, fails where the permission lookup answers a level
  other than \<^verbatim>\<open>admin\<close>: with \<^verbatim>\<open>write\<close> permission and an active admin membership of the
  organisation, the driver makes no membership lookup (the log ends with the
  permission lookup), \<open>isOwner\<close> stays false and the call is denied.
\<close>

theorem C3_membership_counterexample:
  "owner_type (owner (repo_data ''acme'' ''widgets'' ''acme'' ''Organization'')) = ''Organization'' \<and>
   login (owner (repo_data ''acme'' ''widgets'' ''acme'' ''Organization''))
     \<noteq> username (user_named ''alice'') \<and>
   repos_getCollaboratorPermissionLevel gh_write ''acme'' ''widgets'' ''alice'' = Inr ''write'' \<and>
   orgs_getMembershipForUser gh_write ''acme'' ''alice''
     = Inr \<lparr>m_role = ''admin'', m_state = ''active''\<rparr> \<and>
   fst (checkOwnership gh_write ''acme'' ''widgets'' (user_named ''alice'')
          (repo_data ''acme'' ''widgets'' ''acme'' ''Organization'') (world0 None))
     = (False, []) \<and>
   calls (snd (verifyOwnership gh_write 100 ''acme/widgets'' (ctx_of (Some ''u1'')) ''p1''
          (world0 None)))
     = [GetAuthenticated, ReposGet ''acme'' ''widgets'',
        GetCollaboratorPermissionLevel ''acme'' ''widgets'' ''alice''] \<and>
   fst (verifyOwnership gh_write 100 ''acme/widgets'' (ctx_of (Some ''u1'')) ''p1''
          (world0 None))
     = Inl (TRPCError FORBIDDEN (forbidden_message ''alice'' ''acme''))"
  by (simp add: run_defs fixture_defs)

text \<open>
  C3 (amended): for a repository of an organisation whose owner login differs from the
  caller's, the membership lookup is attempted when the permission lookup failed: an
  answer with role \<^verbatim>\<open>admin\<close> and state \<^verbatim>\<open>active\<close> approves the attempt with ownership type
  \<^verbatim>\<open>organization owner\<close>; a failing membership lookup or any other answer leaves
  \<open>isOwner\<close> false and the call goes to the denial. When the permission lookup answers
  a level other than \<^verbatim>\<open>admin\<close>, no membership lookup is made, \<open>isOwner\<close> stays false and
  the call goes to the denial.
\<close>

theorem C3_membership_amended:
  assumes "parseRepoIdentifier identifier = Inr (ow, re)"
    and "getCurrentUser gh w = (Inr cu, w1)"
    and "getRepo gh now identifier w1 = (Inr rd, w2)"
    and "owner_type (owner rd) = ''Organization''"
    and "login (owner rd) \<noteq> username cu"
  shows
    "(\<forall>err m. repos_getCollaboratorPermissionLevel gh ow re (username cu) = Inl err \<and>
        orgs_getMembershipForUser gh (login (owner rd)) (username cu) = Inr m \<and>
        m_role m = ''admin'' \<and> m_state m = ''active'' \<longrightarrow>
        checkOwnership gh ow re cu rd w2 =
          ((True, ''organization owner''),
           w2\<lparr>calls := calls w2 @ [GetCollaboratorPermissionLevel ow re (username cu),
                                   GetMembershipForUser (login (owner rd)) (username cu)]\<rparr>) \<and>
        (\<forall>msg. fst (verifyOwnership gh now identifier ctx projectId w)
                 \<noteq> Inl (TRPCError FORBIDDEN msg)) \<and>
        (\<forall>s p. ctx_session ctx = Some s \<and> p \<in> set (projects w) \<and> claimable projectId p \<longrightarrow>
            (\<exists>row. fst (verifyOwnership gh now identifier ctx projectId w) =
               Inr \<lparr>res_success = True, res_project = row,
                    res_ownershipType = ''organization owner'',
                    res_verifiedAs = username cu\<rparr> \<and>
               project_id row = projectId \<and> ownerId row = Some (userId s)))) \<and>
     (\<forall>err. repos_getCollaboratorPermissionLevel gh ow re (username cu) = Inl err \<and>
        (\<forall>m. orgs_getMembershipForUser gh (login (owner rd)) (username cu) = Inr m \<longrightarrow>
              \<not> (m_role m = ''admin'' \<and> m_state m = ''active'')) \<longrightarrow>
        checkOwnership gh ow re cu rd w2 =
          ((False, []),
           w2\<lparr>calls := calls w2 @ [GetCollaboratorPermissionLevel ow re (username cu),
                                   GetMembershipForUser (login (owner rd)) (username cu)]\<rparr>) \<and>
        verifyOwnership gh now identifier ctx projectId w =
          deny ctx projectId cu rd
            (w2\<lparr>calls := calls w2 @ [GetCollaboratorPermissionLevel ow re (username cu),
                                   GetMembershipForUser (login (owner rd)) (username cu)]\<rparr>)) \<and>
     (\<forall>level. repos_getCollaboratorPermissionLevel gh ow re (username cu) = Inr level \<and>
        level \<noteq> ''admin'' \<longrightarrow>
        checkOwnership gh ow re cu rd w2 =
          ((False, []),
           w2\<lparr>calls := calls w2 @ [GetCollaboratorPermissionLevel ow re (username cu)]\<rparr>) \<and>
        verifyOwnership gh now identifier ctx projectId w =
          deny ctx projectId cu rd
            (w2\<lparr>calls := calls w2 @ [GetCollaboratorPermissionLevel ow re (username cu)]\<rparr>))"
proof (intro conjI allI impI)
  fix err m
  assume a: "repos_getCollaboratorPermissionLevel gh ow re (username cu) = Inl err \<and>
        orgs_getMembershipForUser gh (login (owner rd)) (username cu) = Inr m \<and>
        m_role m = ''admin'' \<and> m_state m = ''active''"
  let ?w3 = "w2\<lparr>calls := calls w2 @ [GetCollaboratorPermissionLevel ow re (username cu),
                                   GetMembershipForUser (login (owner rd)) (username cu)]\<rparr>"
  from a show chk: "checkOwnership gh ow re cu rd w2 = ((True, ''organization owner''), ?w3)"
    by (simp add: checkOwnership_org [OF assms(4,5)])
  from approved_outcome [OF assms(1-3) chk, of ctx projectId]
  show "fst (verifyOwnership gh now identifier ctx projectId w) \<noteq> Inl (TRPCError FORBIDDEN msg)"
    for msg by blast
  fix s p
  assume "ctx_session ctx = Some s \<and> p \<in> set (projects w) \<and> claimable projectId p"
  with approved_outcome [OF assms(1-3) chk, of ctx projectId]
  show "\<exists>row. fst (verifyOwnership gh now identifier ctx projectId w) =
               Inr \<lparr>res_success = True, res_project = row,
                    res_ownershipType = ''organization owner'',
                    res_verifiedAs = username cu\<rparr> \<and>
               project_id row = projectId \<and> ownerId row = Some (userId s)"
    by blast
next
  fix err
  assume a: "repos_getCollaboratorPermissionLevel gh ow re (username cu) = Inl err \<and>
        (\<forall>m. orgs_getMembershipForUser gh (login (owner rd)) (username cu) = Inr m \<longrightarrow>
              \<not> (m_role m = ''admin'' \<and> m_state m = ''active''))"
  let ?w3 = "w2\<lparr>calls := calls w2 @ [GetCollaboratorPermissionLevel ow re (username cu),
                                   GetMembershipForUser (login (owner rd)) (username cu)]\<rparr>"
  from a show chk: "checkOwnership gh ow re cu rd w2 = ((False, []), ?w3)"
    by (auto simp: checkOwnership_org [OF assms(4,5)] split: sum.splits)
  show "verifyOwnership gh now identifier ctx projectId w = deny ctx projectId cu rd ?w3"
    by (rule denied_run [OF assms(1-3) chk])
next
  fix level
  assume a: "repos_getCollaboratorPermissionLevel gh ow re (username cu) = Inr level \<and>
        level \<noteq> ''admin''"
  let ?w3 = "w2\<lparr>calls := calls w2 @ [GetCollaboratorPermissionLevel ow re (username cu)]\<rparr>"
  from a show chk: "checkOwnership gh ow re cu rd w2 = ((False, []), ?w3)"
    by (simp add: checkOwnership_org [OF assms(4,5)])
  show "verifyOwnership gh now identifier ctx projectId w = deny ctx projectId cu rd ?w3"
    by (rule denied_run [OF assms(1-3) chk])
qed

theorem C3_membership_amended_witness:
  "fst (verifyOwnership gh_org_owner 100 ''acme/widgets'' (ctx_of (Some ''u1'')) ''p1''
          (world0 None)) =
     Inr \<lparr>res_success = True,
          res_project = \<lparr>project_id = ''p1'', ownerId = Some ''u1'', updatedAt = 100\<rparr>,
          res_ownershipType = ''organization owner'', res_verifiedAs = ''alice''\<rparr>"
proof -
  let ?w = "world0 None"
  let ?w1 = "snd (getCurrentUser gh_org_owner ?w)"
  let ?w2 = "snd (getRepo gh_org_owner 100 ''acme/widgets'' ?w1)"
  let ?cu = "user_named ''alice''"
  let ?rd = "repo_data ''acme'' ''widgets'' ''acme'' ''Organization''"
  let ?run = "verifyOwnership gh_org_owner 100 ''acme/widgets'' (ctx_of (Some ''u1'')) ''p1'' ?w"
  have h2: "getCurrentUser gh_org_owner ?w = (Inr ?cu, ?w1)"
    unfolding gh_org_owner_def by (rule provider_user)
  have "cache ?w1 (createCacheKey ''github'' ''repo'' ''acme/widgets'') = None"
    by (simp add: getCurrentUser_cache world0_def)
  then have h3: "getRepo gh_org_owner 100 ''acme/widgets'' ?w1 = (Inr ?rd, ?w2)"
    unfolding gh_org_owner_def by (rule provider_repo [OF parse_acme])
  have h4: "owner_type (owner ?rd) = ''Organization''" by (simp add: repo_data_def)
  have h5: "login (owner ?rd) \<noteq> username ?cu" by (simp add: repo_data_def user_named_def)
  have h6: "repos_getCollaboratorPermissionLevel gh_org_owner ''acme'' ''widgets'' (username ?cu)
              = Inl not_found \<and>
            orgs_getMembershipForUser gh_org_owner (login (owner ?rd)) (username ?cu)
              = Inr org_admin \<and>
            m_role org_admin = ''admin'' \<and> m_state org_admin = ''active''"
    by (simp add: gh_org_owner_def provider_def org_admin_def)
  have h7: "ctx_session (ctx_of (Some ''u1'')) = Some \<lparr>userId = ''u1''\<rparr> \<and>
            \<lparr>project_id = ''p1'', ownerId = None, updatedAt = 0\<rparr> \<in> set (projects ?w) \<and>
            claimable ''p1'' \<lparr>project_id = ''p1'', ownerId = None, updatedAt = 0\<rparr>"
    by (simp add: world0_def claimable_def ctx_of_def)
  from C3_membership_amended [OF parse_acme h2 h3 h4 h5, of "ctx_of (Some ''u1'')" "''p1''"] h6 h7
  obtain row where "fst ?run =
     Inr \<lparr>res_success = True, res_project = row,
          res_ownershipType = ''organization owner'', res_verifiedAs = username ?cu\<rparr>"
    by blast
  then show ?thesis by (simp add: run_defs fixture_defs)
qed

subsection \<open>The direct owner\<close>

text \<open>
  C4: when the login of the resolved repository owner equals the login of the resolved
  caller, the checks give \<open>isOwner\<close> true with ownership type \<^verbatim>\<open>repository owner\<close> and leave
  the world as it is; the whole call makes no collaborator-permission and no
  membership lookup, is never denied, and with a session and an unclaimed row of the
  project it returns success with that ownership type.
\<close>

theorem C4_direct_owner:
  assumes "parseRepoIdentifier identifier = Inr (ow, re)"
    and "getCurrentUser gh w = (Inr cu, w1)"
    and "getRepo gh now identifier w1 = (Inr rd, w2)"
    and "login (owner rd) = username cu"
  shows "checkOwnership gh ow re cu rd w2 = ((True, ''repository owner''), w2) \<and>
         (\<exists>cs. calls (snd (verifyOwnership gh now identifier ctx projectId w)) = calls w @ cs \<and>
               (\<forall>c \<in> set cs. \<not> is_lookup c)) \<and>
         (\<forall>m. fst (verifyOwnership gh now identifier ctx projectId w) \<noteq> Inl (TRPCError FORBIDDEN m)) \<and>
         (\<forall>s p. ctx_session ctx = Some s \<and> p \<in> set (projects w) \<and> claimable projectId p \<longrightarrow>
            (\<exists>row. fst (verifyOwnership gh now identifier ctx projectId w) =
               Inr \<lparr>res_success = True, res_project = row,
                    res_ownershipType = ''repository owner'', res_verifiedAs = username cu\<rparr> \<and>
               project_id row = projectId \<and> ownerId row = Some (userId s)))"
proof -
  have chk: "checkOwnership gh ow re cu rd w2 = ((True, ''repository owner''), w2)"
    using assms(4) by (simp add: checkOwnership_def)
  have run: "verifyOwnership gh now identifier ctx projectId w =
               assign now ctx projectId ow re cu rd ''repository owner'' w2"
    by (rule approved_run [OF assms(1-3) chk])
  obtain cs where cs: "calls w2 = calls w1 @ cs" "\<forall>c \<in> set cs. \<not> is_lookup c"
    using getRepo_calls [OF assms(3)] by auto
  have "calls (snd (verifyOwnership gh now identifier ctx projectId w))
          = calls w @ (GetAuthenticated # cs)"
    using run assign_calls [of now ctx projectId ow re cu rd "''repository owner''" w2]
      getCurrentUser_db [OF assms(2)] cs(1) by simp
  moreover have "\<forall>c \<in> set (GetAuthenticated # cs). \<not> is_lookup c"
    using cs(2) by simp
  ultimately have calls: "\<exists>cs. calls (snd (verifyOwnership gh now identifier ctx projectId w))
      = calls w @ cs \<and> (\<forall>c \<in> set cs. \<not> is_lookup c)" by blast
  have nf: "\<forall>m. fst (verifyOwnership gh now identifier ctx projectId w) \<noteq> Inl (TRPCError FORBIDDEN m)"
    using run assign_not_forbidden by simp
  have ok: "\<forall>s p. ctx_session ctx = Some s \<and> p \<in> set (projects w) \<and> claimable projectId p \<longrightarrow>
            (\<exists>row. fst (verifyOwnership gh now identifier ctx projectId w) =
               Inr \<lparr>res_success = True, res_project = row,
                    res_ownershipType = ''repository owner'', res_verifiedAs = username cu\<rparr> \<and>
               project_id row = projectId \<and> ownerId row = Some (userId s))"
    using approved_success [OF assms(1-3) chk] by blast
  from chk calls nf ok show ?thesis by blast
qed

theorem C4_direct_owner_witness:
  "fst (verifyOwnership gh_direct 100 ''octocat/Hello-World'' (ctx_of (Some ''u1'')) ''p1''
          (world0 None)) =
     Inr \<lparr>res_success = True,
          res_project = \<lparr>project_id = ''p1'', ownerId = Some ''u1'', updatedAt = 100\<rparr>,
          res_ownershipType = ''repository owner'', res_verifiedAs = ''octocat''\<rparr> \<and>
   calls (snd (verifyOwnership gh_direct 100 ''octocat/Hello-World'' (ctx_of (Some ''u1''))
          ''p1'' (world0 None))) =
     [GetAuthenticated, ReposGet ''octocat'' ''Hello-World'']"
proof -
  let ?w = "world0 None"
  let ?w1 = "snd (getCurrentUser gh_direct ?w)"
  let ?w2 = "snd (getRepo gh_direct 100 ''octocat/Hello-World'' ?w1)"
  let ?cu = "user_named ''octocat''"
  let ?rd = "repo_data ''octocat'' ''Hello-World'' ''octocat'' ''User''"
  let ?run = "verifyOwnership gh_direct 100 ''octocat/Hello-World'' (ctx_of (Some ''u1'')) ''p1'' ?w"
  have h2: "getCurrentUser gh_direct ?w = (Inr ?cu, ?w1)"
    unfolding gh_direct_def by (rule provider_user)
  have "cache ?w1 (createCacheKey ''github'' ''repo'' ''octocat/Hello-World'') = None"
    by (simp add: getCurrentUser_cache world0_def)
  then have h3: "getRepo gh_direct 100 ''octocat/Hello-World'' ?w1 = (Inr ?rd, ?w2)"
    unfolding gh_direct_def by (rule provider_repo [OF parse_octocat])
  have h4: "login (owner ?rd) = username ?cu" by (simp add: repo_data_def user_named_def)
  have h5: "ctx_session (ctx_of (Some ''u1'')) = Some \<lparr>userId = ''u1''\<rparr> \<and>
            \<lparr>project_id = ''p1'', ownerId = None, updatedAt = 0\<rparr> \<in> set (projects ?w) \<and>
            claimable ''p1'' \<lparr>project_id = ''p1'', ownerId = None, updatedAt = 0\<rparr>"
    by (simp add: world0_def claimable_def ctx_of_def)
  from C4_direct_owner [OF parse_octocat h2 h3 h4, of "ctx_of (Some ''u1'')" "''p1''"] h5
  obtain row where "fst ?run =
     Inr \<lparr>res_success = True, res_project = row,
          res_ownershipType = ''repository owner'', res_verifiedAs = username ?cu\<rparr>"
    by blast
  then show ?thesis by (simp add: run_defs fixture_defs)
qed

subsection \<open>Denial and propagated failures\<close>




subsection \<open>Update first, record second\<close>

text \<open>
  C6: a successful verification runs the conditional update first and inserts the
  success row second: after the update and before the insert the claim table is
  still the old one and the project already belongs to the claiming user. The two
  statements are the two steps of the call (running the steps gives what
  \<^verbatim>\<open>verifyOwnership\<close> gives). With any number of calls in flight, their statements
  interleaved in any order, every state reached from consistent tables is consistent:
  no success row exists whose project is not assigned to the row's user.
\<close>

theorem C6_update_before_record:
  "(verifyOwnership gh now identifier ctx projectId w = (Inr res, w') \<longrightarrow>
      (\<exists>t0 w0 c wm.
         start gh now identifier ctx projectId w = (t0, w0) \<and>
         projects w0 = projects w \<and> projectClaims w0 = projectClaims w \<and>
         step t0 w0 = (DoInsert c (Inr res), wm) \<and>
         projectClaims wm = projectClaims w \<and>
         success c \<and> pc_projectId c = projectId \<and> owner_assigned (projects wm) c \<and>
         step (DoInsert c (Inr res)) wm = (Finished (Inr res), w') \<and>
         projectClaims w' = projectClaims w @ [c] \<and> projects w' = projects wm)) \<and>
   steps 2 (start gh now identifier ctx projectId w) =
     (Finished (fst (verifyOwnership gh now identifier ctx projectId w)),
      snd (verifyOwnership gh now identifier ctx projectId w)) \<and>
   (consistent v \<and> interleave\<^sup>*\<^sup>* (v, []) (v', ts) \<longrightarrow> consistent v')"
proof (intro conjI impI)
  assume "verifyOwnership gh now identifier ctx projectId w = (Inr res, w')"
  then show "\<exists>t0 w0 c wm.
         start gh now identifier ctx projectId w = (t0, w0) \<and>
         projects w0 = projects w \<and> projectClaims w0 = projectClaims w \<and>
         step t0 w0 = (DoInsert c (Inr res), wm) \<and>
         projectClaims wm = projectClaims w \<and>
         success c \<and> pc_projectId c = projectId \<and> owner_assigned (projects wm) c \<and>
         step (DoInsert c (Inr res)) wm = (Finished (Inr res), w') \<and>
         projectClaims w' = projectClaims w @ [c] \<and> projects w' = projects wm"
    by (rule success_order)
next
  show "steps 2 (start gh now identifier ctx projectId w) =
     (Finished (fst (verifyOwnership gh now identifier ctx projectId w)),
      snd (verifyOwnership gh now identifier ctx projectId w))"
    by (rule verifyOwnership_steps)
next
  assume a: "consistent v \<and> interleave\<^sup>*\<^sup>* (v, []) (v', ts)"
  then have "inv (v, [])" by (simp add: inv_def)
  with a have "inv (v', ts)" by (blast intro: reachable_inv)
  then show "consistent v'" by (simp add: inv_def)
qed

theorem C6_update_before_record_witness:
  "\<exists>w. interleave\<^sup>*\<^sup>* (world0 None, [])
          (w, [Finished (Inr \<lparr>res_success = True,
                  res_project = \<lparr>project_id = ''p1'', ownerId = Some ''u1'', updatedAt = 100\<rparr>,
                  res_ownershipType = ''repository owner'', res_verifiedAs = ''octocat''\<rparr>),
               Finished (Inl (TRPCError CONFLICT
                  ''Project has already been claimed by another user''))]) \<and>
       map ownerId (projects w) = [Some ''u1''] \<and>
       map pc_userId (projectClaims w) = [''u1''] \<and>
       consistent w"
proof -
  define a where "a = start gh_direct 100 ''octocat/Hello-World'' (ctx_of (Some ''u1'')) ''p1''
                        (world0 None)"
  define b where "b = start gh_fallback 101 ''acme/widgets'' (ctx_of (Some ''u2'')) ''p1'' (snd a)"
  define s1 where "s1 = step (fst a) (snd b)"
  define s2 where "s2 = step (fst b) (snd s1)"
  define s3 where "s3 = step (fst s1) (snd s2)"
  have i1: "interleave (world0 None, []) (snd a, [] @ [fst a])"
    by (rule interleave.arrive [of gh_direct 100 "''octocat/Hello-World''" "ctx_of (Some ''u1'')" "''p1''"])
       (simp add: a_def)
  have i2: "interleave (snd a, [fst a]) (snd b, [fst a] @ [fst b])"
    by (rule interleave.arrive [of gh_fallback 101 "''acme/widgets''" "ctx_of (Some ''u2'')" "''p1''"])
       (simp add: b_def)
  have i3: "interleave (snd b, [fst a, fst b]) (snd s1, [fst a, fst b][0 := fst s1])"
    by (rule interleave.advance) (simp_all add: s1_def)
  have i4: "interleave (snd s1, [fst s1, fst b]) (snd s2, [fst s1, fst b][1 := fst s2])"
    by (rule interleave.advance) (simp_all add: s2_def)
  have i5: "interleave (snd s2, [fst s1, fst s2]) (snd s3, [fst s1, fst s2][0 := fst s3])"
    by (rule interleave.advance) (simp_all add: s3_def)
  have chain: "interleave\<^sup>*\<^sup>* (world0 None, []) (snd s3, [fst s3, fst s2])"
    using i1 i2 i3 i4 i5 by (simp add: rtranclp.intros)
  have c0: "consistent (world0 None)" by (simp add: consistent_def world0_def)
  from C6_update_before_record [of _ _ _ _ _ _ _ _ "world0 None" "snd s3" "[fst s3, fst s2]"]
    c0 chain
  have c5: "consistent (snd s3)" by blast
  have ts: "fst s3 = Finished (Inr \<lparr>res_success = True,
                  res_project = \<lparr>project_id = ''p1'', ownerId = Some ''u1'', updatedAt = 100\<rparr>,
                  res_ownershipType = ''repository owner'', res_verifiedAs = ''octocat''\<rparr>)"
    "fst s2 = Finished (Inl (TRPCError CONFLICT
                  ''Project has already been claimed by another user''))"
    by (simp_all add: a_def b_def s1_def s2_def s3_def start_def run_defs fixture_defs)
  have db: "map ownerId (projects (snd s3)) = [Some ''u1'']"
    "map pc_userId (projectClaims (snd s3)) = [''u1'']"
    by (simp_all add: a_def b_def s1_def s2_def s3_def start_def run_defs fixture_defs)
  from chain ts db c5 show ?thesis by auto
qed

subsection \<open>No session, no ownership\<close>

text \<open>
  C7: \<^verbatim>\<open>verifyOwnership\<close>, the one operation that assigns ownership, fails whenever the
  context has no session: it ends in an error, every project keeps its id and its
  owner, and no claim row is written.
\<close>

theorem C7_no_session:
  assumes "ctx_session ctx = None"
    and "verifyOwnership gh now identifier ctx projectId w = (r, w')"
  shows "(\<exists>e. r = Inl e) \<and>
         map project_id (projects w') = map project_id (projects w) \<and>
         map ownerId (projects w') = map ownerId (projects w) \<and>
         projectClaims w' = projectClaims w"
  using assms(2)
proof (cases rule: verifyOwnership_cases)
  case (parse e)
  then show ?thesis by simp
next
  case (identity ow re e)
  with getCurrentUser_db [OF identity(2)] show ?thesis by simp
next
  case (repository ow re cu w1 e)
  with getCurrentUser_db [OF repository(2)] getRepo_db [OF repository(3)] show ?thesis by simp
next
  case (denied ow re cu w1 rd w2 ot w3)
  have "projects w3 = projects w" "projectClaims w3 = projectClaims w"
    using getCurrentUser_db [OF denied(2)] getRepo_db [OF denied(3)] checkOwnership_db [OF denied(4)]
    by simp_all
  moreover from denied(5) deny_no_session [OF assms(1), of projectId cu rd w3]
  have "r = Inl (TypeError ''userId'')" "w' = w3" by simp_all
  ultimately show ?thesis by simp
next
  case (approved ow re cu w1 rd w2 ot w3)
  have "projects w3 = projects w" "projectClaims w3 = projectClaims w"
    using getCurrentUser_db [OF approved(2)] getRepo_db [OF approved(3)]
      checkOwnership_db [OF approved(4)]
    by simp_all
  with assign_no_session [OF assms(1) approved(5)] show ?thesis by simp
qed

theorem C7_no_session_witness:
  "fst (verifyOwnership gh_direct 100 ''octocat/Hello-World'' (ctx_of None) ''p1'' (world0 None))
     = Inl (TypeError ''userId'') \<and>
   map ownerId (projects (snd (verifyOwnership gh_direct 100 ''octocat/Hello-World''
     (ctx_of None) ''p1'' (world0 None)))) = [None] \<and>
   projectClaims (snd (verifyOwnership gh_direct 100 ''octocat/Hello-World''
     (ctx_of None) ''p1'' (world0 None))) = []"
proof -
  let ?run = "verifyOwnership gh_direct 100 ''octocat/Hello-World'' (ctx_of None) ''p1'' (world0 None)"
  have h1: "ctx_session (ctx_of None) = None" by (simp add: ctx_of_def)
  have h2: "?run = (fst ?run, snd ?run)" by simp
  have r: "fst ?run = Inl (TypeError ''userId'')"
    by (simp add: run_defs fixture_defs)
  from C7_no_session [OF h1 h2] r show ?thesis by (simp add: world0_def)
qed

subsection \<open>Parsing identifiers\<close>

text \<open>
  C8, as the specification states it, fails: the identifier \<^verbatim>\<open>a/b/c\<close> has the owner
  segment \<^verbatim>\<open>a\<close> and, split on the first separator, the name segment \<^verbatim>\<open>b/c\<close>, both
  non-empty; parsing cuts at every separator, yields three segments and returns the
  first two, \<^verbatim>\<open>a\<close> and \<^verbatim>\<open>b\<close>. So the round trip fails on this well-formed identifier; and
  read the other way (three segments, so not one segment on each side of a separator),
  parsing does not fail on it.
\<close>

theorem C8_parse_counterexample:
  "spec_well_formed ''a'' ''b/c'' \<and>
   split_on CHR ''/'' (''a'' @ ''/'' @ ''b/c'') = [''a'', ''b'', ''c''] \<and>
   parseRepoIdentifier (''a'' @ ''/'' @ ''b/c'') = Inr (''a'', ''b'') \<and>
   parseRepoIdentifier (''a'' @ ''/'' @ ''b/c'') \<noteq> Inr (''a'', ''b/c'') \<and>
   parseRepoIdentifier (''a'' @ ''/'' @ ''b/c'') \<noteq> Inl InvalidIdentifier"
  by (simp add: spec_well_formed_def parseRepoIdentifier_def)

text \<open>
  C8 (amended): parsing cuts the identifier at every separator and looks at the first
  two segments only. For an owner and a name that are non-empty and hold no separator,
  the identifier \<^verbatim>\<open>owner/name\<close>, also when followed by a separator and anything else,
  parses to exactly that owner and name. Conversely parsing succeeds only on strings
  of that shape, and every other string fails with the invalid-format error.
\<close>

theorem C8_parse_amended:
  "(ow \<noteq> [] \<and> re \<noteq> [] \<and> CHR ''/'' \<notin> set ow \<and> CHR ''/'' \<notin> set re \<longrightarrow>
      parseRepoIdentifier (ow @ CHR ''/'' # re) = Inr (ow, re) \<and>
      parseRepoIdentifier (ow @ CHR ''/'' # re @ CHR ''/'' # t) = Inr (ow, re)) \<and>
   (parseRepoIdentifier s = Inr (ow', re') \<longrightarrow>
      ow' \<noteq> [] \<and> re' \<noteq> [] \<and> CHR ''/'' \<notin> set ow' \<and> CHR ''/'' \<notin> set re' \<and>
      (s = ow' @ CHR ''/'' # re' \<or> (\<exists>u. s = ow' @ CHR ''/'' # re' @ CHR ''/'' # u))) \<and>
   (parseRepoIdentifier s = Inl e \<longrightarrow> e = InvalidIdentifier)"
  using parseRepoIdentifier_two [of ow re] parseRepoIdentifier_more [of ow re t]
    parseRepoIdentifier_Inr [of s ow' re'] parseRepoIdentifier_Inl [of s e]
  by blast

theorem C8_parse_amended_witness:
  "parseRepoIdentifier ''octocat/Hello-World'' = Inr (''octocat'', ''Hello-World'') \<and>
   parseRepoIdentifier ''octocat/Hello-World/tree'' = Inr (''octocat'', ''Hello-World'') \<and>
   parseRepoIdentifier ''octocat'' = Inl InvalidIdentifier \<and>
   parseRepoIdentifier ''octocat/'' = Inl InvalidIdentifier \<and>
   parseRepoIdentifier ''/Hello-World'' = Inl InvalidIdentifier"
proof -
  have a: "parseRepoIdentifier ''octocat/Hello-World'' = Inr (''octocat'', ''Hello-World'')"
    using C8_parse_amended [of "''octocat''" "''Hello-World''" "''tree''" "[]" "[]" "[]" InvalidIdentifier]
    by simp
  have b: "parseRepoIdentifier ''octocat/Hello-World/tree'' = Inr (''octocat'', ''Hello-World'')"
    using C8_parse_amended [of "''octocat''" "''Hello-World''" "''tree''" "[]" "[]" "[]" InvalidIdentifier]
    by simp
  have c: "parseRepoIdentifier ''octocat'' = Inl InvalidIdentifier"
    "parseRepoIdentifier ''octocat/'' = Inl InvalidIdentifier"
    "parseRepoIdentifier ''/Hello-World'' = Inl InvalidIdentifier"
    by (simp_all add: parseRepoIdentifier_def)
  from a b c show ?thesis by simp
qed

subsection \<open>Filtering and capping pull requests\<close>

text \<open>
  C9, as the specification states it, fails twice. With the filter \<^verbatim>\<open>merged\<close> a pull request
  whose reported state is merged is returned although its merge timestamp is null. And
  the limit 0 does not cap the result at 0 records: it stands for the default, and a
  provider with enough pull requests gets 100 records returned.
\<close>

theorem C9_pull_requests_counterexample:
  "getUserPullRequests 1 (single_page [node_of MERGED None]) ''alice''
      (Some \<lparr>opt_state = Some Merged, opt_limit = Some 50\<rparr>)
     = Some (Inr [formatPR (node_of MERGED None)]) \<and>
   mergedAt (formatPR (node_of MERGED None)) = None \<and>
   getUserPullRequests 1 (endless (node_of OPEN None)) ''alice''
      (Some \<lparr>opt_state = Some All, opt_limit = Some 0\<rparr>)
     = Some (Inr (replicate 100 (formatPR (node_of OPEN None)))) \<and>
   \<not> int (length (replicate 100 (formatPR (node_of OPEN None)))) \<le> 0"
  by (simp add: getUserPullRequests_def effective_limit_def effective_state_def endless_def
      single_page_def slice0_def Let_def keepPR_def formatPR_def node_of_def)

text \<open>
  C9 (amended): whenever the listing returns, with the filter \<^verbatim>\<open>merged\<close> every record has
  the state merged or a non-empty merge timestamp; with the filter \<^verbatim>\<open>closed\<close> every
  record has the state closed and no merge timestamp; and the number of records is at
  most the effective limit (the given limit, 100 when it is 0 or absent, and none when
  it is negative), however many pages the provider has. The listing does return, with
  fuel beyond the effective limit, whenever every page that reports a next page adds a
  record.
\<close>

theorem C9_pull_requests_amended:
  "(getUserPullRequests fuel gq user options = Some (Inr prs) \<longrightarrow>
      (effective_state options = Merged \<longrightarrow>
         (\<forall>pr \<in> set prs. state pr = ''merged'' \<or> (\<exists>t. mergedAt pr = Some t \<and> t \<noteq> []))) \<and>
      (effective_state options = Closed \<longrightarrow>
         (\<forall>pr \<in> set prs. state pr = ''closed'' \<and> mergedAt pr = None)) \<and>
      int (length prs) \<le> max 0 (effective_limit options)) \<and>
   (progresses gq user (effective_state options) \<and> nat (effective_limit options) < fuel \<longrightarrow>
      (\<exists>r. getUserPullRequests fuel gq user options = Some r))"
proof (intro conjI impI ballI)
  fix pr
  assume run: "getUserPullRequests fuel gq user options = Some (Inr prs)"
    and m: "effective_state options = Merged" and pr: "pr \<in> set prs"
  from getUserPullRequests_kept [OF run] pr m
  have k: "keepPR Merged pr" and f: "pr \<in> range formatPR" by auto
  from f obtain n where n: "pr = formatPR n" by blast
  show "state pr = ''merged'' \<or> (\<exists>t. mergedAt pr = Some t \<and> t \<noteq> [])"
  proof (cases "state pr = ''merged''")
    case True
    then show ?thesis by simp
  next
    case False
    with k have "\<not> falsy (mergedAt pr)" by (simp add: keepPR_def)
    with n formatPR_mergedAt(1) [of n] obtain t where t: "mergedAt pr = Some t"
      by (cases "mergedAt pr") auto
    with n formatPR_mergedAt(2) [of n t] show ?thesis by simp
  qed
next
  fix pr
  assume run: "getUserPullRequests fuel gq user options = Some (Inr prs)"
    and c: "effective_state options = Closed" and pr: "pr \<in> set prs"
  from getUserPullRequests_kept [OF run] pr c
  have k: "keepPR Closed pr" and f: "pr \<in> range formatPR" by auto
  from f obtain n where n: "pr = formatPR n" by blast
  from k have "state pr = ''closed''" "falsy (mergedAt pr)" by (simp_all add: keepPR_def)
  with n formatPR_mergedAt(1) [of n] show "state pr = ''closed''" "mergedAt pr = None"
    by simp_all
next
  assume "getUserPullRequests fuel gq user options = Some (Inr prs)"
  then show "int (length prs) \<le> max 0 (effective_limit options)"
    by (rule getUserPullRequests_length)
next
  assume "progresses gq user (effective_state options) \<and> nat (effective_limit options) < fuel"
  then show "\<exists>r. getUserPullRequests fuel gq user options = Some r"
    using getUserPullRequests_returns by blast
qed

theorem C9_pull_requests_amended_witness:
  "getUserPullRequests 51 (endless (node_of CLOSED (Some ''2024-01-03T00:00:00Z''))) ''alice''
      (Some \<lparr>opt_state = Some Merged, opt_limit = Some 50\<rparr>)
     = Some (Inr (replicate 50 (formatPR (node_of CLOSED (Some ''2024-01-03T00:00:00Z''))))) \<and>
   state (formatPR (node_of CLOSED (Some ''2024-01-03T00:00:00Z''))) = ''closed'' \<and>
   mergedAt (formatPR (node_of CLOSED (Some ''2024-01-03T00:00:00Z'')))
     = Some ''2024-01-03T00:00:00Z'' \<and>
   int (length (replicate 50 (formatPR (node_of CLOSED (Some ''2024-01-03T00:00:00Z''))))) \<le> 50"
proof -
  let ?n = "node_of CLOSED (Some ''2024-01-03T00:00:00Z'')"
  let ?opts = "Some \<lparr>opt_state = Some Merged, opt_limit = Some 50\<rparr>"
  let ?prs = "replicate 50 (formatPR ?n)"
  have f: "state (formatPR ?n) = ''closed''"
    "mergedAt (formatPR ?n) = Some ''2024-01-03T00:00:00Z''"
    by (simp_all add: formatPR_def node_of_def)
  then have k: "keepPR Merged (formatPR ?n)" by (simp add: keepPR_def)
  have e: "effective_state ?opts = Merged" "effective_limit ?opts = 50"
    by (simp_all add: effective_state_def effective_limit_def)
  have p: "progresses (endless ?n) ''alice'' (effective_state ?opts) \<and>
           nat (effective_limit ?opts) < 51"
    using endless_progresses [OF k] e by simp
  from C9_pull_requests_amended [of 51 "endless ?n" "''alice''" ?opts ?prs] p
  obtain r where r: "getUserPullRequests 51 (endless ?n) ''alice'' ?opts = Some r" by blast
  have run: "getUserPullRequests 51 (endless ?n) ''alice'' ?opts = Some (Inr ?prs)"
    using endless_run [of 50 Merged ?n 50 "''alice''"] k by simp
  from C9_pull_requests_amended [of 51 "endless ?n" "''alice''" ?opts ?prs] run e
  have "int (length ?prs) \<le> max 0 50" by simp
  with run f show ?thesis by simp
qed

subsection \<open>Default limit and default state filter\<close>

text \<open>
  C10: a limit of 0 gives the same run as an absent limit and as the limit 100, an
  absent state filter the same run as the filter \<^verbatim>\<open>all\<close>, and absent options the same
  run as the filter \<^verbatim>\<open>all\<close> with the limit 100. With the limit 0 at most 100 records are
  returned, and a provider that never runs out gets exactly 100 returned, not an
  empty list.
\<close>

theorem C10_default_limit_and_state:
  "getUserPullRequests fuel gq user (Some \<lparr>opt_state = st, opt_limit = Some 0\<rparr>)
     = getUserPullRequests fuel gq user (Some \<lparr>opt_state = st, opt_limit = None\<rparr>) \<and>
   getUserPullRequests fuel gq user (Some \<lparr>opt_state = st, opt_limit = Some 0\<rparr>)
     = getUserPullRequests fuel gq user (Some \<lparr>opt_state = st, opt_limit = Some 100\<rparr>) \<and>
   getUserPullRequests fuel gq user (Some \<lparr>opt_state = None, opt_limit = l\<rparr>)
     = getUserPullRequests fuel gq user (Some \<lparr>opt_state = Some All, opt_limit = l\<rparr>) \<and>
   getUserPullRequests fuel gq user None
     = getUserPullRequests fuel gq user (Some \<lparr>opt_state = Some All, opt_limit = Some 100\<rparr>) \<and>
   (getUserPullRequests fuel gq user (Some \<lparr>opt_state = st, opt_limit = Some 0\<rparr>) = Some (Inr prs)
      \<longrightarrow> length prs \<le> 100) \<and>
   getUserPullRequests (Suc fuel) (endless n) user (Some \<lparr>opt_state = None, opt_limit = Some 0\<rparr>)
     = Some (Inr (replicate 100 (formatPR n)))"
proof (intro conjI impI)
  assume "getUserPullRequests fuel gq user (Some \<lparr>opt_state = st, opt_limit = Some 0\<rparr>)
            = Some (Inr prs)"
  from getUserPullRequests_length [OF this] show "length prs \<le> 100"
    by (simp add: effective_limit_def)
next
  show "getUserPullRequests (Suc fuel) (endless n) user
          (Some \<lparr>opt_state = None, opt_limit = Some 0\<rparr>)
        = Some (Inr (replicate 100 (formatPR n)))"
    by (simp add: getUserPullRequests_def effective_limit_def effective_state_def endless_def
        slice0_def Let_def keepPR_def)
qed (simp_all add: getUserPullRequests_def effective_limit_def effective_state_def)

theorem C10_default_limit_and_state_witness:
  "getUserPullRequests 1 (endless (node_of OPEN None)) ''alice''
      (Some \<lparr>opt_state = None, opt_limit = Some 0\<rparr>)
     = Some (Inr (replicate 100 (formatPR (node_of OPEN None)))) \<and>
   length (replicate 100 (formatPR (node_of OPEN None))) = 100"
  using C10_default_limit_and_state [of 0 "endless (node_of OPEN None)" "''alice''" None None
      "replicate 100 (formatPR (node_of OPEN None))" "node_of OPEN None"]
  by simp

end
